theory Spec2Isabelle
  imports Complex_Main "HOL-Library.AList" "HOL-Library.Sublist"
begin

section \<open>Python values and the built-in operations the program uses\<close>

text \<open>
  The program works on the document that \<^verbatim>\<open>resp.json()\<close> returns: nested Python
  dicts, lists, strings, numbers, booleans and \<^verbatim>\<open>None\<close>. A dict is an association
  list read with \<open>map_of\<close>; a float is the real number it denotes (NaN and the
  infinities are outside the model); a string is a list of
  bytes, the UTF-8 encoding of the Python string. What \<^verbatim>\<open>float\<close> and \<^verbatim>\<open>str.lower\<close>
  compute is Python's own and is taken as a parameter.
\<close>

datatype json =
    JNull
  | JBool bool
  | JInt int
  | JFloat real
  | JStr string
  | JArr "json list"
  | JObj "(string \<times> json) list"

datatype py_error =
  AttributeError | TypeError | ValueError | KeyError | OverflowError | SystemExit

type_synonym 'a result = "py_error + 'a"

text \<open>Sequencing of two steps: an exception of the first step skips the second.\<close>

definition and_then :: "'a result \<Rightarrow> ('a \<Rightarrow> 'b result) \<Rightarrow> 'b result" where
  "and_then m f = (case m of Inl e \<Rightarrow> Inl e | Inr x \<Rightarrow> f x)"

text \<open>\<^verbatim>\<open>x.get(k, d)\<close>: only a dict has the method.\<close>

fun py_get :: "json \<Rightarrow> string \<Rightarrow> json \<Rightarrow> json result" where
  "py_get (JObj kvs) k d = Inr (case map_of kvs k of None \<Rightarrow> d | Some x \<Rightarrow> x)"
| "py_get _ k d = Inl AttributeError"

text \<open>
  \<^verbatim>\<open>for x in c\<close>: a list yields its elements, a dict its keys, a string its characters
  (each a string of length one); anything else is not iterable. For a string the model
  yields one element for each byte where Python yields one for each code point; the
  program calls \<^verbatim>\<open>.get\<close> on the first element, which raises for either.
\<close>

fun py_iter :: "json \<Rightarrow> json list result" where
  "py_iter (JArr xs) = Inr xs"
| "py_iter (JObj kvs) = Inr (map JStr (remdups (map fst kvs)))"
| "py_iter (JStr s) = Inr (map (\<lambda>c. JStr [c]) s)"
| "py_iter _ = Inl TypeError"

text \<open>\<^verbatim>\<open>x == n\<close> for an integer constant \<open>n\<close>: \<^verbatim>\<open>False == 0\<close> and \<^verbatim>\<open>0.0 == 0\<close> hold in Python.\<close>

fun py_eq_int :: "json \<Rightarrow> int \<Rightarrow> bool" where
  "py_eq_int (JInt m) n = (m = n)"
| "py_eq_int (JFloat r) n = (r = of_int n)"
| "py_eq_int (JBool b) n = ((if b then 1 else 0) = n)"
| "py_eq_int _ n = False"

text \<open>\<^verbatim>\<open>x == s\<close> for a string constant \<open>s\<close>.\<close>

fun py_eq_str :: "json \<Rightarrow> string \<Rightarrow> bool" where
  "py_eq_str (JStr t) s = (t = s)"
| "py_eq_str _ s = False"

text \<open>
  \<^verbatim>\<open>s in c\<close> for a string \<open>s\<close>: substring test on a string, element test on a list,
  key test on a dict, \<^verbatim>\<open>TypeError\<close> on anything else.
\<close>

fun py_contains :: "string \<Rightarrow> json \<Rightarrow> bool result" where
  "py_contains s (JStr t) = Inr (sublist s t)"
| "py_contains s (JArr xs) = Inr (list_ex (\<lambda>x. py_eq_str x s) xs)"
| "py_contains s (JObj kvs) = Inr (s \<in> fst ` set kvs)"
| "py_contains s _ = Inl TypeError"

text \<open>\<^verbatim>\<open>x in counts\<close> for a dict with string keys: a list or a dict cannot be hashed.\<close>

fun py_in_dict :: "json \<Rightarrow> (string \<times> 'v) list \<Rightarrow> bool result" where
  "py_in_dict (JArr xs) d = Inl TypeError"
| "py_in_dict (JObj kvs) d = Inl TypeError"
| "py_in_dict (JStr s) d = Inr (s \<in> fst ` set d)"
| "py_in_dict _ d = Inr False"

definition lower_char :: "char \<Rightarrow> char" where
  "lower_char c =
     (if (65::nat) \<le> of_char c \<and> of_char c \<le> (90::nat) then char_of (of_char c + (32::nat)) else c)"

definition ascii_lower :: "string \<Rightarrow> string" where
  "ascii_lower s = map lower_char s"

text \<open>
  \<^verbatim>\<open>x.lower()\<close>: only a string has the method. The case mapping of Unicode is
  Python's own (it sends U+212A to \<open>k\<close>, for one); it is the parameter \<open>lower\<close>, a
  function on the encoded strings. On a string of ASCII characters it is \<open>ascii_lower\<close>.
\<close>

fun py_lower :: "(string \<Rightarrow> string) \<Rightarrow> json \<Rightarrow> json result" where
  "py_lower lower (JStr s) = Inr (JStr (lower s))"
| "py_lower lower _ = Inl AttributeError"

definition lowers_ascii :: "(string \<Rightarrow> string) \<Rightarrow> bool" where
  "lowers_ascii lower =
     (\<forall>s. list_all (\<lambda>c. (of_char c :: nat) < 128) s \<longrightarrow> lower s = ascii_lower s)"

text \<open>
  \<^verbatim>\<open>float(x)\<close>. The conversion of an integer is Python's own: it rounds to the nearest
  double and raises \<^verbatim>\<open>OverflowError\<close> beyond the range of a double; it is the parameter
  \<open>fi\<close> (\<open>None\<close> where it raises). Parsing a string is Python's own too; it is the
  parameter \<open>fl\<close> (\<open>None\<close> where \<^verbatim>\<open>float\<close> raises \<^verbatim>\<open>ValueError\<close>).
\<close>

fun py_float :: "(int \<Rightarrow> real option) \<Rightarrow> (string \<Rightarrow> real option) \<Rightarrow> json \<Rightarrow> real result" where
  "py_float fi fl (JInt n) = (case fi n of None \<Rightarrow> Inl OverflowError | Some r \<Rightarrow> Inr r)"
| "py_float fi fl (JFloat r) = Inr r"
| "py_float fi fl (JBool b) = Inr (if b then 1 else 0)"
| "py_float fi fl (JStr s) = (case fl s of None \<Rightarrow> Inl ValueError | Some r \<Rightarrow> Inr r)"
| "py_float fi fl _ = Inl TypeError"

text \<open>
  What is used of \<^verbatim>\<open>float\<close> on integers: an integer of magnitude at most 2^53 is a
  double, and \<^verbatim>\<open>float\<close> returns it unchanged.
\<close>

definition exact_to_2_53 :: "(int \<Rightarrow> real option) \<Rightarrow> bool" where
  "exact_to_2_53 fi = (\<forall>n. \<bar>n\<bar> \<le> 2 ^ 53 \<longrightarrow> fi n = Some (of_int n))"

text \<open>
  \<^verbatim>\<open>len(x)\<close>. For a string the model counts bytes where Python counts code points; the
  program takes the length of the vulnerability list only, and when that is a string
  that is not empty the aggregators that follow raise.
\<close>

fun py_len :: "json \<Rightarrow> int result" where
  "py_len (JArr xs) = Inr (int (length xs))"
| "py_len (JObj kvs) = Inr (int (length (remdups (map fst kvs))))"
| "py_len (JStr s) = Inr (int (length s))"
| "py_len _ = Inl TypeError"

section \<open>Constants of the module\<close>

definition THREAT_TYPE_VULN :: int where
  "THREAT_TYPE_VULN = 0"

definition THREAT_TYPE_EXPLOIT :: int where
  "THREAT_TYPE_EXPLOIT = 1"

definition VULN_CLASSIFICATIONS :: "string list" where
  "VULN_CLASSIFICATIONS =
     [''Elevation of Privilege'',
      ''Security Feature Bypass'',
      ''Remote Code Execution'',
      ''Information Disclosure'',
      ''Denial of Service'',
      ''Spoofing'',
      ''Edge - Chromium'']"

section \<open>MSRCStats.classification_counts\<close>

text \<open>
  \<open>counts\<close> is a dict in insertion order, \<open>seen\<close> a set of labels, kept as a list
  without repetitions. Python iterates over a set in an order of its own; the loop over
  \<open>seen\<close> gives the same \<open>counts\<close> in any order (lemma \<open>credit_labels_eq\<close>).
\<close>

type_synonym counts = "(string \<times> int) list"

definition set_add :: "string \<Rightarrow> string list \<Rightarrow> string list" where
  "set_add x seen = (if x \<in> set seen then seen else seen @ [x])"

text \<open>The body of the loop over the threats of one vulnerability.\<close>

definition classify_threat :: "counts \<Rightarrow> json \<Rightarrow> string list \<Rightarrow> string list result" where
  "classify_threat counts t seen =
     and_then (py_get t ''Type'' JNull) (\<lambda>ty.
       if \<not> py_eq_int ty THREAT_TYPE_VULN then Inr seen
       else
         and_then (py_get t ''Description'' (JObj [])) (\<lambda>d.
         and_then (py_get d ''Value'' (JStr [])) (\<lambda>desc.
           if py_eq_str desc ''Edge - Chromium'' then
             and_then (py_get t ''ProductID'' (JArr [])) (\<lambda>pids.
             and_then (py_contains ''11655'' pids) (\<lambda>b.
               Inr (if b then set_add ''Edge - Chromium'' seen else seen)))
           else
             and_then (py_in_dict desc counts) (\<lambda>b.
               Inr (if b then (case desc of JStr s \<Rightarrow> set_add s seen | _ \<Rightarrow> seen) else seen)))))"

fun classify_threats :: "counts \<Rightarrow> json list \<Rightarrow> string list \<Rightarrow> string list result" where
  "classify_threats counts [] seen = Inr seen"
| "classify_threats counts (t # ts) seen =
     and_then (classify_threat counts t seen) (classify_threats counts ts)"

text \<open>\<^verbatim>\<open>counts[label] += 1\<close>\<close>

definition dict_incr :: "counts \<Rightarrow> string \<Rightarrow> counts result" where
  "dict_incr counts label =
     (case map_of counts label of
        None \<Rightarrow> Inl KeyError
      | Some c \<Rightarrow> Inr (AList.update label (c + 1) counts))"

fun credit_labels :: "string list \<Rightarrow> counts \<Rightarrow> counts result" where
  "credit_labels [] counts = Inr counts"
| "credit_labels (label # seen) counts =
     and_then (dict_incr counts label) (credit_labels seen)"

text \<open>The body of the loop over the vulnerabilities.\<close>

definition count_vuln :: "json \<Rightarrow> counts \<Rightarrow> counts result" where
  "count_vuln v counts =
     and_then (py_get v ''Threats'' (JArr [])) (\<lambda>th.
     and_then (py_iter th) (\<lambda>ts.
     and_then (classify_threats counts ts []) (\<lambda>seen.
       credit_labels seen counts)))"

fun count_vulns :: "json list \<Rightarrow> counts \<Rightarrow> counts result" where
  "count_vulns [] counts = Inr counts"
| "count_vulns (v # vs) counts = and_then (count_vuln v counts) (count_vulns vs)"

definition classification_counts :: "json \<Rightarrow> counts result" where
  "classification_counts vulns =
     and_then (py_iter vulns) (\<lambda>vs.
       count_vulns vs (map (\<lambda>label. (label, 0)) VULN_CLASSIFICATIONS))"

section \<open>MSRCStats.exploited_in_wild\<close>

text \<open>A row of a result table is the dict the code appends, keys in the order written.\<close>

type_synonym row = "(string \<times> json) list"

text \<open>
  \<^verbatim>\<open>next((s.get('BaseScore', 0) for s in v.get('CVSSScoreSets', [])), 0)\<close>: the generator
  is asked for one element only, so only the first score set is read.
\<close>

definition first_base_score :: "json \<Rightarrow> json result" where
  "first_base_score v =
     and_then (py_get v ''CVSSScoreSets'' (JArr [])) (\<lambda>sets.
     and_then (py_iter sets) (\<lambda>ss.
       case ss of
         [] \<Rightarrow> Inr (JInt 0)
       | s # _ \<Rightarrow> py_get s ''BaseScore'' (JInt 0)))"

text \<open>\<^verbatim>\<open>t.get('Description', {}).get('Value', '')\<close>\<close>

definition threat_description :: "json \<Rightarrow> json result" where
  "threat_description t =
     and_then (py_get t ''Description'' (JObj [])) (\<lambda>d. py_get d ''Value'' (JStr []))"

text \<open>\<^verbatim>\<open>v.get('Title', {}).get('Value')\<close>\<close>

definition vuln_title :: "json \<Rightarrow> json result" where
  "vuln_title v = and_then (py_get v ''Title'' (JObj [])) (\<lambda>t. py_get t ''Value'' JNull)"

text \<open>The condition of the \<^verbatim>\<open>if\<close>; \<^verbatim>\<open>and\<close> does not evaluate its right side after a false left side.\<close>

definition is_wild_threat :: "json \<Rightarrow> bool result" where
  "is_wild_threat t =
     and_then (py_get t ''Type'' JNull) (\<lambda>ty.
       if \<not> py_eq_int ty THREAT_TYPE_EXPLOIT then Inr False
       else and_then (threat_description t) (py_contains ''Exploited:Yes''))"

definition wild_row :: "json \<Rightarrow> json \<Rightarrow> row result" where
  "wild_row v base =
     and_then (py_get v ''CVE'' JNull) (\<lambda>cve.
     and_then (vuln_title v) (\<lambda>title.
       Inr [(''CVE'', cve), (''Score'', base), (''Title'', title)]))"

text \<open>The loop over the threats: the first match appends the row and breaks.\<close>

fun wild_threats :: "json \<Rightarrow> json \<Rightarrow> json list \<Rightarrow> row list \<Rightarrow> row list result" where
  "wild_threats v base [] rows = Inr rows"
| "wild_threats v base (t # ts) rows =
     and_then (is_wild_threat t) (\<lambda>hit.
       if hit then and_then (wild_row v base) (\<lambda>r. Inr (rows @ [r]))
       else wild_threats v base ts rows)"

definition wild_vuln :: "json \<Rightarrow> row list \<Rightarrow> row list result" where
  "wild_vuln v rows =
     and_then (first_base_score v) (\<lambda>base.
     and_then (py_get v ''Threats'' (JArr [])) (\<lambda>th.
     and_then (py_iter th) (\<lambda>ts.
       wild_threats v base ts rows)))"

fun wild_vulns :: "json list \<Rightarrow> row list \<Rightarrow> row list result" where
  "wild_vulns [] rows = Inr rows"
| "wild_vulns (v # vs) rows = and_then (wild_vuln v rows) (wild_vulns vs)"

definition exploited_in_wild :: "json \<Rightarrow> row list result" where
  "exploited_in_wild vulns = and_then (py_iter vulns) (\<lambda>vs. wild_vulns vs [])"

section \<open>MSRCStats.high_severity\<close>

text \<open>\<^verbatim>\<open>next((float(s.get('BaseScore', 0)) for s in v.get('CVSSScoreSets', [])), 0.0)\<close>\<close>

definition first_base_float ::
  "(int \<Rightarrow> real option) \<Rightarrow> (string \<Rightarrow> real option) \<Rightarrow> json \<Rightarrow> real result" where
  "first_base_float fi fl v =
     and_then (py_get v ''CVSSScoreSets'' (JArr [])) (\<lambda>sets.
     and_then (py_iter sets) (\<lambda>ss.
       case ss of
         [] \<Rightarrow> Inr 0
       | s # _ \<Rightarrow> and_then (py_get s ''BaseScore'' (JInt 0)) (py_float fi fl)))"

definition severity_row :: "json \<Rightarrow> real \<Rightarrow> row result" where
  "severity_row v bs =
     and_then (py_get v ''CVE'' JNull) (\<lambda>cve.
     and_then (vuln_title v) (\<lambda>title.
       Inr [(''CVE'', cve), (''Score'', JFloat bs), (''Title'', title)]))"

definition severity_vuln ::
  "(int \<Rightarrow> real option) \<Rightarrow> (string \<Rightarrow> real option) \<Rightarrow> real \<Rightarrow> json \<Rightarrow> row list
     \<Rightarrow> row list result" where
  "severity_vuln fi fl threshold v rows =
     and_then (first_base_float fi fl v) (\<lambda>bs.
       if bs \<ge> threshold then and_then (severity_row v bs) (\<lambda>r. Inr (rows @ [r]))
       else Inr rows)"

fun severity_vulns ::
  "(int \<Rightarrow> real option) \<Rightarrow> (string \<Rightarrow> real option) \<Rightarrow> real \<Rightarrow> json list \<Rightarrow> row list
     \<Rightarrow> row list result" where
  "severity_vulns fi fl threshold [] rows = Inr rows"
| "severity_vulns fi fl threshold (v # vs) rows =
     and_then (severity_vuln fi fl threshold v rows) (severity_vulns fi fl threshold vs)"

text \<open>The argument \<open>None\<close> is the call that leaves \<^verbatim>\<open>threshold\<close> to its default.\<close>

definition high_severity ::
  "(int \<Rightarrow> real option) \<Rightarrow> (string \<Rightarrow> real option) \<Rightarrow> real option \<Rightarrow> json
     \<Rightarrow> row list result" where
  "high_severity fi fl threshold vulns =
     and_then (py_iter vulns) (\<lambda>vs.
       severity_vulns fi fl (case threshold of None \<Rightarrow> 8 | Some th \<Rightarrow> th) vs [])"

section \<open>MSRCStats.likely_exploited\<close>

definition is_likely_threat :: "(string \<Rightarrow> string) \<Rightarrow> json \<Rightarrow> bool result" where
  "is_likely_threat lower t =
     and_then (py_get t ''Type'' JNull) (\<lambda>ty.
       if \<not> py_eq_int ty THREAT_TYPE_EXPLOIT then Inr False
       else
         and_then (threat_description t) (\<lambda>d.
         and_then (py_lower lower d) (py_contains ''exploitation more likely'')))"

definition likely_row :: "json \<Rightarrow> row result" where
  "likely_row v =
     and_then (py_get v ''CVE'' JNull) (\<lambda>cve.
     and_then (vuln_title v) (\<lambda>title.
       Inr [(''CVE'', cve), (''Title'', title)]))"

fun likely_threats ::
  "(string \<Rightarrow> string) \<Rightarrow> json \<Rightarrow> json list \<Rightarrow> row list \<Rightarrow> row list result" where
  "likely_threats lower v [] rows = Inr rows"
| "likely_threats lower v (t # ts) rows =
     and_then (is_likely_threat lower t) (\<lambda>hit.
       if hit then and_then (likely_row v) (\<lambda>r. Inr (rows @ [r]))
       else likely_threats lower v ts rows)"

definition likely_vuln :: "(string \<Rightarrow> string) \<Rightarrow> json \<Rightarrow> row list \<Rightarrow> row list result" where
  "likely_vuln lower v rows =
     and_then (py_get v ''Threats'' (JArr [])) (\<lambda>th.
     and_then (py_iter th) (\<lambda>ts.
       likely_threats lower v ts rows))"

fun likely_vulns :: "(string \<Rightarrow> string) \<Rightarrow> json list \<Rightarrow> row list \<Rightarrow> row list result" where
  "likely_vulns lower [] rows = Inr rows"
| "likely_vulns lower (v # vs) rows =
     and_then (likely_vuln lower v rows) (likely_vulns lower vs)"

definition likely_exploited :: "(string \<Rightarrow> string) \<Rightarrow> json \<Rightarrow> row list result" where
  "likely_exploited lower vulns = and_then (py_iter vulns) (\<lambda>vs. likely_vulns lower vs [])"

section \<open>MSRCStats.__init__ and main\<close>

text \<open>
  The HTTP response is an input: its status code and its body as parsed by
  \<^verbatim>\<open>resp.json()\<close>. \<^verbatim>\<open>sys.exit\<close> raises \<^verbatim>\<open>SystemExit\<close>; a body that is not JSON makes
  \<^verbatim>\<open>resp.json()\<close> raise, a \<^verbatim>\<open>ValueError\<close>.
\<close>

record response =
  status_code :: int
  body :: "json option"

definition fetch_json :: "response \<Rightarrow> json result" where
  "fetch_json resp =
     (if status_code resp \<noteq> 200 then Inl SystemExit
      else (case body resp of None \<Rightarrow> Inl ValueError | Some d \<Rightarrow> Inr d))"

record stats =
  year_month :: string
  data :: json
  title :: json
  vulns :: json

definition stats_init :: "string \<Rightarrow> response \<Rightarrow> stats result" where
  "stats_init ym resp =
     and_then (fetch_json resp) (\<lambda>d.
     and_then (py_get d ''DocumentTitle'' (JObj [])) (\<lambda>dt.
     and_then (py_get dt ''Value'' (JStr ''[no title]'')) (\<lambda>ti.
     and_then (py_get d ''Vulnerability'' (JArr [])) (\<lambda>vs.
       Inr \<lparr>year_month = ym, data = d, title = ti, vulns = vs\<rparr>))))"

text \<open>
  The tables handed to the writer, and the workbook as the list of the sheets in the
  order of the \<^verbatim>\<open>to_excel\<close> calls. The sign in the fourth sheet name is U+2265, three
  bytes in UTF-8. The period \<open>ym\<close> is what \<^verbatim>\<open>current_year_month\<close> returned; the loop that
  sets the column widths changes no sheet name and no cell, and is left out.
\<close>

datatype table =
    Summary json string int
  | ByLabel counts
  | Rows "row list"

definition to_excel :: "table \<Rightarrow> string \<Rightarrow> (string \<times> table) list \<Rightarrow> (string \<times> table) list" where
  "to_excel df sheet_name writer = AList.update sheet_name df writer"

definition main ::
  "(int \<Rightarrow> real option) \<Rightarrow> (string \<Rightarrow> real option) \<Rightarrow> (string \<Rightarrow> string) \<Rightarrow> string
     \<Rightarrow> response \<Rightarrow> (string \<times> table) list result" where
  "main fi fl lower ym resp =
     and_then (stats_init ym resp) (\<lambda>st.
     and_then (py_len (vulns st)) (\<lambda>total.
     and_then (classification_counts (vulns st)) (\<lambda>df_class.
     and_then (exploited_in_wild (vulns st)) (\<lambda>df_wild.
     and_then (high_severity fi fl (Some 8) (vulns st)) (\<lambda>df_high.
     and_then (likely_exploited lower (vulns st)) (\<lambda>df_likely.
       let writer = [];
           writer = to_excel (Summary (title st) (year_month st) total) ''Summary'' writer;
           writer = to_excel (ByLabel df_class) ''By Classification'' writer;
           writer = to_excel (Rows df_wild) ''Exploited in Wild'' writer;
           writer = to_excel (Rows df_high)
                      (''High Severity ('' @ [CHR 0xE2, CHR 0x89, CHR 0xA5] @ ''8.0)'') writer;
           writer = to_excel (Rows df_likely) ''Likely Exploited'' writer
       in Inr writer))))))"

section \<open>The shape of a bulletin, and the properties in the words of the specification\<close>

text \<open>
  Reading a field of a record of the data model: \<open>None\<close> when the field is missing.
\<close>

definition field :: "json \<Rightarrow> string \<Rightarrow> json option" where
  "field x k = (case x of JObj kvs \<Rightarrow> map_of kvs k | _ \<Rightarrow> None)"

definition is_obj :: "json \<Rightarrow> bool" where
  "is_obj x = (case x of JObj _ \<Rightarrow> True | _ \<Rightarrow> False)"

definition is_str :: "json \<Rightarrow> bool" where
  "is_str x = (case x of JStr _ \<Rightarrow> True | _ \<Rightarrow> False)"

definition is_arr :: "json \<Rightarrow> bool" where
  "is_arr x = (case x of JArr _ \<Rightarrow> True | _ \<Rightarrow> False)"

definition is_num :: "json \<Rightarrow> bool" where
  "is_num x = (case x of JInt _ \<Rightarrow> True | JFloat _ \<Rightarrow> True | _ \<Rightarrow> False)"

definition arr_of :: "(json \<Rightarrow> bool) \<Rightarrow> json \<Rightarrow> bool" where
  "arr_of P x = (case x of JArr xs \<Rightarrow> list_all P xs | _ \<Rightarrow> False)"

text \<open>A field that may be missing and has the given shape when it is there.\<close>

definition opt_field :: "(json \<Rightarrow> bool) \<Rightarrow> json \<Rightarrow> string \<Rightarrow> bool" where
  "opt_field P x k = (case field x k of None \<Rightarrow> True | Some y \<Rightarrow> P y)"

text \<open>
  A threat entry: a record whose description, if any, is a record with a string value, if
  any, and whose product identifiers, if any, are a list. Its type is any value.
\<close>

definition wf_threat :: "json \<Rightarrow> bool" where
  "wf_threat t =
     (is_obj t
      \<and> opt_field (\<lambda>d. is_obj d \<and> opt_field is_str d ''Value'') t ''Description''
      \<and> opt_field is_arr t ''ProductID'')"

definition wf_score_set :: "json \<Rightarrow> bool" where
  "wf_score_set s = (is_obj s \<and> opt_field is_num s ''BaseScore'')"

text \<open>
  A vulnerability record: every field may be missing; threats and score sets are lists of
  such records, the title is a record. The CVE identifier and the title's value are any
  value.
\<close>

definition wf_vuln :: "json \<Rightarrow> bool" where
  "wf_vuln v =
     (is_obj v
      \<and> opt_field (arr_of wf_threat) v ''Threats''
      \<and> opt_field (arr_of wf_score_set) v ''CVSSScoreSets''
      \<and> opt_field is_obj v ''Title'')"

definition threats :: "json \<Rightarrow> json list" where
  "threats v = (case field v ''Threats'' of Some (JArr ts) \<Rightarrow> ts | _ \<Rightarrow> [])"

definition score_sets :: "json \<Rightarrow> json list" where
  "score_sets v = (case field v ''CVSSScoreSets'' of Some (JArr ss) \<Rightarrow> ss | _ \<Rightarrow> [])"

definition product_ids :: "json \<Rightarrow> json list" where
  "product_ids t = (case field t ''ProductID'' of Some (JArr ps) \<Rightarrow> ps | _ \<Rightarrow> [])"

definition description :: "json \<Rightarrow> string" where
  "description t =
     (case field t ''Description'' of
        None \<Rightarrow> []
      | Some d \<Rightarrow> (case field d ''Value'' of Some (JStr s) \<Rightarrow> s | _ \<Rightarrow> []))"

definition has_type :: "int \<Rightarrow> json \<Rightarrow> bool" where
  "has_type n t = (case field t ''Type'' of None \<Rightarrow> False | Some ty \<Rightarrow> py_eq_int ty n)"

definition cve_of :: "json \<Rightarrow> json" where
  "cve_of v = (case field v ''CVE'' of None \<Rightarrow> JNull | Some c \<Rightarrow> c)"

definition title_of :: "json \<Rightarrow> json" where
  "title_of v =
     (case field v ''Title'' of
        None \<Rightarrow> JNull
      | Some t \<Rightarrow> (case field t ''Value'' of None \<Rightarrow> JNull | Some x \<Rightarrow> x))"

text \<open>
  A threat entry names the label \<open>l\<close>: it is of type Vulnerability, its description is
  \<open>l\<close>, and for the sentinel label its product identifiers contain the sentinel.
\<close>

definition names_label :: "string \<Rightarrow> json \<Rightarrow> bool" where
  "names_label l t =
     (has_type THREAT_TYPE_VULN t \<and> description t = l
      \<and> (if l = ''Edge - Chromium'' then JStr ''11655'' \<in> set (product_ids t) else True))"

definition credited :: "string \<Rightarrow> json \<Rightarrow> bool" where
  "credited l v = list_ex (names_label l) (threats v)"

definition exploited_yes :: "json \<Rightarrow> bool" where
  "exploited_yes v =
     list_ex (\<lambda>t. has_type THREAT_TYPE_EXPLOIT t \<and> sublist ''Exploited:Yes'' (description t))
       (threats v)"

definition more_likely :: "(string \<Rightarrow> string) \<Rightarrow> json \<Rightarrow> bool" where
  "more_likely lower v =
     list_ex (\<lambda>t. has_type THREAT_TYPE_EXPLOIT t
                \<and> sublist ''exploitation more likely'' (lower (description t)))
       (threats v)"

text \<open>The base score of the first score set, 0 when that set has none or there is no set.\<close>

definition score_of_first_set :: "json \<Rightarrow> json" where
  "score_of_first_set v =
     (case score_sets v of
        [] \<Rightarrow> JInt 0
      | s # _ \<Rightarrow> (case field s ''BaseScore'' of None \<Rightarrow> JInt 0 | Some b \<Rightarrow> b))"

text \<open>
  The first base score found when the score sets are searched in order, 0 when no score
  set has one.
\<close>

definition first_score_found :: "json \<Rightarrow> json" where
  "first_score_found v =
     (case List.map_filter (\<lambda>s. field s ''BaseScore'') (score_sets v) of
        [] \<Rightarrow> JInt 0
      | b # _ \<Rightarrow> b)"

definition num_value :: "json \<Rightarrow> real" where
  "num_value x = (case x of JInt n \<Rightarrow> of_int n | JFloat r \<Rightarrow> r | _ \<Rightarrow> 0)"

definition severity_score :: "json \<Rightarrow> real" where
  "severity_score v = num_value (score_of_first_set v)"

text \<open>
  The first score set's base score, when it is an integer, has magnitude at most 2^53
  (the scores of the glossary lie between 0 and 10).
\<close>

definition first_score_exact :: "json \<Rightarrow> bool" where
  "first_score_exact v =
     (case score_of_first_set v of JInt n \<Rightarrow> \<bar>n\<bar> \<le> 2 ^ 53 | _ \<Rightarrow> True)"

text \<open>The rows of the three result tables, for a vulnerability that is reported.\<close>

definition wild_row_of :: "json \<Rightarrow> row" where
  "wild_row_of v = [(''CVE'', cve_of v), (''Score'', score_of_first_set v), (''Title'', title_of v)]"

definition severity_row_of :: "json \<Rightarrow> row" where
  "severity_row_of v =
     [(''CVE'', cve_of v), (''Score'', JFloat (severity_score v)), (''Title'', title_of v)]"

definition likely_row_of :: "json \<Rightarrow> row" where
  "likely_row_of v = [(''CVE'', cve_of v), (''Title'', title_of v)]"

text \<open>
  Example records used below, and instances of the parameters for them: a \<^verbatim>\<open>float\<close>
  that returns every integer unchanged, a \<^verbatim>\<open>float\<close> that parses no string, and
  \<open>ascii_lower\<close> for \<^verbatim>\<open>str.lower\<close>. The examples hold small integers and ASCII strings
  only.
\<close>

definition spoofing_threat :: json where
  "spoofing_threat =
     JObj [(''Type'', JInt 0), (''Description'', JObj [(''Value'', JStr ''Spoofing'')])]"

definition spoofing_twice :: json where
  "spoofing_twice = JObj [(''CVE'', JStr ''CVE-1''), (''Threats'', JArr [spoofing_threat, spoofing_threat])]"

definition unknown_label :: json where
  "unknown_label =
     JObj [(''Threats'', JArr [JObj [(''Type'', JInt 0),
                                    (''Description'', JObj [(''Value'', JStr ''Tampering'')])]])]"

definition edge_other :: json where
  "edge_other =
     JObj [(''Threats'', JArr [JObj [(''Type'', JInt 0),
                                    (''Description'', JObj [(''Value'', JStr ''Edge - Chromium'')]),
                                    (''ProductID'', JArr [JStr ''99999''])]])]"

definition edge_sentinel_threat :: json where
  "edge_sentinel_threat =
     JObj [(''Type'', JInt 0),
           (''Description'', JObj [(''Value'', JStr ''Edge - Chromium'')]),
           (''ProductID'', JArr [JStr ''11655'', JStr ''5''])]"

definition edge_sentinel :: json where
  "edge_sentinel = JObj [(''Threats'', JArr [edge_sentinel_threat])]"

definition exploit_threat :: "string \<Rightarrow> json" where
  "exploit_threat s = JObj [(''Type'', JInt 1), (''Description'', JObj [(''Value'', JStr s)])]"

definition wild_second :: json where
  "wild_second =
     JObj [(''CVE'', JStr ''CVE-2''),
           (''Threats'', JArr [exploit_threat ''Exploited:No'', exploit_threat ''Exploited:Yes'',
                               exploit_threat ''Exploited:Yes''])]"

definition wild_lowercase :: json where
  "wild_lowercase =
     JObj [(''CVE'', JStr ''CVE-3''), (''Threats'', JArr [exploit_threat ''Exploited:yes''])]"

definition likely_caps :: json where
  "likely_caps =
     JObj [(''CVE'', JStr ''CVE-4''),
           (''Threats'', JArr [exploit_threat ''EXPLOITATION MORE LIKELY'',
                               exploit_threat ''Exploitation More Likely''])]"

definition never_float :: "string \<Rightarrow> real option" where
  "never_float s = None"

definition exact_float :: "int \<Rightarrow> real option" where
  "exact_float n = Some (of_int n)"

definition no_scores :: json where
  "no_scores = JObj [(''CVE'', JStr ''CVE-6'')]"

definition score_91 :: json where
  "score_91 =
     JObj [(''CVE'', JStr ''CVE-7''), (''Title'', JObj [(''Value'', JStr ''High'')]),
           (''CVSSScoreSets'', JArr [JObj [(''BaseScore'', JFloat (91 / 10))],
                                     JObj [(''BaseScore'', JInt 2)]])]"

definition score_8 :: json where
  "score_8 = JObj [(''CVSSScoreSets'', JArr [JObj [(''BaseScore'', JInt 8)]])]"

definition late_score :: json where
  "late_score =
     JObj [(''CVE'', JStr ''CVE-5''),
           (''CVSSScoreSets'', JArr [JObj [], JObj [(''BaseScore'', JFloat (91 / 10))]]),
           (''Threats'', JArr [exploit_threat ''Exploited:Yes''])]"

definition wild_scored :: json where
  "wild_scored =
     JObj [(''CVE'', JStr ''CVE-8''),
           (''CVSSScoreSets'', JArr [JObj [(''BaseScore'', JFloat (15 / 2))]]),
           (''Threats'', JArr [exploit_threat ''Exploited:Yes''])]"

definition empty_bulletin :: response where
  "empty_bulletin = \<lparr>status_code = 200, body = Some (JObj [])\<rparr>"

definition empty_report :: "(string \<times> table) list" where
  "empty_report =
     [(''Summary'', Summary (JStr ''[no title]'') ''2024-Jan'' 0),
      (''By Classification'',
         ByLabel [(''Elevation of Privilege'', 0), (''Security Feature Bypass'', 0),
                  (''Remote Code Execution'', 0), (''Information Disclosure'', 0),
                  (''Denial of Service'', 0), (''Spoofing'', 0), (''Edge - Chromium'', 0)]),
      (''Exploited in Wild'', Rows []),
      (''High Severity ('' @ [CHR 0xE2, CHR 0x89, CHR 0xA5] @ ''8.0)'', Rows []),
      (''Likely Exploited'', Rows [])]"

definition empty_record :: json where
  "empty_record = JObj []"

definition tampering_counts :: counts where
  "tampering_counts =
     [(''Elevation of Privilege'', 0), (''Security Feature Bypass'', 0),
      (''Remote Code Execution'', 0), (''Information Disclosure'', 0),
      (''Denial of Service'', 0), (''Spoofing'', 0), (''Edge - Chromium'', 0)]"

definition spoofing_counts :: counts where
  "spoofing_counts =
     [(''Elevation of Privilege'', 0), (''Security Feature Bypass'', 0),
      (''Remote Code Execution'', 0), (''Information Disclosure'', 0),
      (''Denial of Service'', 0), (''Spoofing'', 1), (''Edge - Chromium'', 0)]"

section \<open>Sequencing and the accessors on well-shaped records\<close>

lemma and_then_simps [simp]:
  "and_then (Inr x) f = f x"
  "and_then (Inl e) f = Inl e"
  by (simp_all add: and_then_def)

lemma and_then_Inr:
  "(and_then m f = Inr y) = (\<exists>x. m = Inr x \<and> f x = Inr y)"
  by (cases m) simp_all

lemma set_add_set [simp]: "set (set_add x seen) = insert x (set seen)"
  by (auto simp: set_add_def)

lemma set_add_distinct [simp]: "distinct seen \<Longrightarrow> distinct (set_add x seen)"
  by (simp add: set_add_def)

lemma list_ex_eq_str: "list_ex (\<lambda>x. py_eq_str x s) xs = (JStr s \<in> set xs)"
proof (induction xs)
  case Nil
  show ?case by simp
next
  case (Cons x xs)
  then show ?case by (cases x) auto
qed

lemma threat_description_wf:
  "wf_threat t \<Longrightarrow> threat_description t = Inr (JStr (description t))"
  by (cases t)
    (auto simp: wf_threat_def is_obj_def is_str_def opt_field_def field_def
      threat_description_def description_def split: option.splits json.splits)

lemma threat_type_wf:
  "wf_threat t \<Longrightarrow> py_get t ''Type'' JNull = Inr ty \<Longrightarrow> py_eq_int ty n = has_type n t"
  by (cases t) (auto simp: wf_threat_def is_obj_def field_def has_type_def split: option.splits)

lemma threat_type_get: "wf_threat t \<Longrightarrow> \<exists>ty. py_get t ''Type'' JNull = Inr ty \<and> (\<forall>n. py_eq_int ty n = has_type n t)"
  by (cases t) (auto simp: wf_threat_def is_obj_def field_def has_type_def split: option.splits)

lemma threat_pids_wf:
  "wf_threat t \<Longrightarrow> \<exists>p. py_get t ''ProductID'' (JArr []) = Inr p
      \<and> py_contains s p = Inr (JStr s \<in> set (product_ids t))"
  by (cases t)
    (auto simp: wf_threat_def is_obj_def is_arr_def opt_field_def field_def product_ids_def
      list_ex_eq_str split: option.splits json.splits)

lemma vuln_threats_wf:
  "wf_vuln v \<Longrightarrow> \<exists>th. py_get v ''Threats'' (JArr []) = Inr th \<and> py_iter th = Inr (threats v)
      \<and> list_all wf_threat (threats v)"
  by (cases v)
    (auto simp: wf_vuln_def is_obj_def arr_of_def opt_field_def field_def threats_def
      split: option.splits json.splits)

lemma wf_threat_of_vuln: "wf_vuln v \<Longrightarrow> t \<in> set (threats v) \<Longrightarrow> wf_threat t"
  using vuln_threats_wf[of v] by (auto simp: list_all_iff)

lemma vuln_title_wf: "wf_vuln v \<Longrightarrow> vuln_title v = Inr (title_of v)"
  by (cases v)
    (auto simp: wf_vuln_def is_obj_def opt_field_def field_def vuln_title_def title_of_def
      split: option.splits json.splits)

lemma vuln_cve_wf: "wf_vuln v \<Longrightarrow> py_get v ''CVE'' JNull = Inr (cve_of v)"
  by (cases v) (auto simp: wf_vuln_def is_obj_def field_def cve_of_def split: option.splits)

lemma vuln_score_sets_wf:
  "wf_vuln v \<Longrightarrow> \<exists>ss. py_get v ''CVSSScoreSets'' (JArr []) = Inr ss \<and> py_iter ss = Inr (score_sets v)
      \<and> list_all wf_score_set (score_sets v)"
  by (cases v)
    (auto simp: wf_vuln_def is_obj_def arr_of_def opt_field_def field_def score_sets_def
      split: option.splits json.splits)

lemma score_set_base_wf:
  "wf_score_set s \<Longrightarrow> \<exists>b. py_get s ''BaseScore'' (JInt 0) = Inr b
      \<and> b = (case field s ''BaseScore'' of None \<Rightarrow> JInt 0 | Some x \<Rightarrow> x)
      \<and> is_num b"
  by (cases s)
    (auto simp: wf_score_set_def is_obj_def is_num_def opt_field_def field_def
      split: option.splits json.splits)


section \<open>The classification counter on well-shaped records\<close>

lemma classify_threat_eq:
  assumes "wf_threat t"
  shows "classify_threat counts t seen =
    Inr (if \<not> has_type THREAT_TYPE_VULN t then seen
         else if description t = ''Edge - Chromium''
              then (if JStr ''11655'' \<in> set (product_ids t) then set_add ''Edge - Chromium'' seen else seen)
         else if description t \<in> fst ` set counts then set_add (description t) seen
         else seen)"
proof -
  from assms obtain ty where ty: "py_get t ''Type'' JNull = Inr ty"
    by (cases t) (auto simp: wf_threat_def is_obj_def)
  from threat_pids_wf[OF assms, of "''11655''"] obtain p where
    p: "py_get t ''ProductID'' (JArr []) = Inr p"
       "py_contains ''11655'' p = Inr (JStr ''11655'' \<in> set (product_ids t))"
    by blast
  have d: "and_then (py_get t ''Description'' (JObj [])) (\<lambda>d. py_get d ''Value'' (JStr [])) = Inr (JStr (description t))"
    using threat_description_wf[OF assms] by (simp add: threat_description_def)
  then obtain d' where d': "py_get t ''Description'' (JObj []) = Inr d'" "py_get d' ''Value'' (JStr []) = Inr (JStr (description t))"
    by (cases "py_get t ''Description'' (JObj [])") auto
  show ?thesis
    unfolding classify_threat_def
    by (simp add: ty p d' threat_type_wf[OF assms ty])
qed

lemma classify_threat_wf:
  assumes "wf_threat t" and "''Edge - Chromium'' \<in> fst ` set counts"
  shows "\<exists>seen'. classify_threat counts t seen = Inr seen'
           \<and> (distinct seen \<longrightarrow> distinct seen')
           \<and> set seen' = set seen \<union> {l \<in> fst ` set counts. names_label l t}"
  using assms(2) by (auto simp: classify_threat_eq[OF assms(1)] names_label_def)

lemma classify_threats_wf:
  assumes "list_all wf_threat ts" and "''Edge - Chromium'' \<in> fst ` set counts"
  shows "\<exists>seen'. classify_threats counts ts seen = Inr seen'
           \<and> (distinct seen \<longrightarrow> distinct seen')
           \<and> set seen' = set seen \<union> {l \<in> fst ` set counts. list_ex (names_label l) ts}"
  using assms(1)
proof (induction ts arbitrary: seen)
  case Nil
  show ?case by simp
next
  case (Cons t ts)
  then have wt: "wf_threat t" and wts: "list_all wf_threat ts" by simp_all
  from classify_threat_wf[OF wt assms(2), of seen] obtain s1 where
    s1: "classify_threat counts t seen = Inr s1" "distinct seen \<longrightarrow> distinct s1"
        "set s1 = set seen \<union> {l \<in> fst ` set counts. names_label l t}"
    by blast
  from Cons.IH[OF wts, of s1] obtain s2 where
    s2: "classify_threats counts ts s1 = Inr s2" "distinct s1 \<longrightarrow> distinct s2"
        "set s2 = set s1 \<union> {l \<in> fst ` set counts. list_ex (names_label l) ts}"
    by blast
  have "classify_threats counts (t # ts) seen = Inr s2"
    by (simp add: s1(1) s2(1))
  moreover have "distinct seen \<longrightarrow> distinct s2"
    using s1(2) s2(2) by blast
  moreover have "set s2 = set seen \<union> {l \<in> fst ` set counts. list_ex (names_label l) (t # ts)}"
    unfolding s2(3) s1(3) by auto
  ultimately show ?case by blast
qed

lemma relabel_keys: "map fst (map (\<lambda>(l, n). (l, f l n)) al) = map fst al"
  by (induction al) auto

lemma relabel_key_set: "fst ` set (map (\<lambda>(l, n). (l, f l n)) al) = fst ` set al"
  using arg_cong[OF relabel_keys, of set f al] by (simp only: set_map)

lemma update_as_map:
  "distinct (map fst al) \<Longrightarrow> map_of al k = Some c \<Longrightarrow>
   AList.update k (c + 1) al = map (\<lambda>(l, n). (l, if l = k then n + 1 else n)) al"
proof (induction al)
  case Nil
  then show ?case by simp
next
  case (Cons a al)
  obtain l n where a: "a = (l, n)" by (cases a)
  show ?case
  proof (cases "l = k")
    case True
    with Cons.prems a have "n = c" and "k \<notin> fst ` set al" by auto
    then have "map (\<lambda>(l, n). (l, if l = k then n + 1 else n)) al = al"
      by (intro map_idI) (auto simp: image_iff)
    with True a \<open>n = c\<close> show ?thesis by simp
  next
    case False
    with Cons a show ?thesis by simp
  qed
qed

lemma credit_labels_eq:
  "distinct (map fst counts) \<Longrightarrow> distinct seen \<Longrightarrow> set seen \<subseteq> fst ` set counts \<Longrightarrow>
   credit_labels seen counts =
     Inr (map (\<lambda>(l, n). (l, if l \<in> set seen then n + 1 else n)) counts)"
proof (induction seen arbitrary: counts)
  case Nil
  show ?case by simp
next
  case (Cons label seen)
  from Cons.prems(3) obtain c where c: "map_of counts label = Some c"
    by (auto simp: image_iff dest!: weak_map_of_SomeI)
  let ?c1 = "map (\<lambda>(l, n). (l, if l = label then n + 1 else n)) counts"
  have step: "dict_incr counts label = Inr ?c1"
    by (simp add: dict_incr_def c update_as_map[OF Cons.prems(1) c])
  have "credit_labels seen ?c1 = Inr (map (\<lambda>(l, n). (l, if l \<in> set seen then n + 1 else n)) ?c1)"
  proof (rule Cons.IH)
    show "distinct (map fst ?c1)" using Cons.prems(1) by (simp only: relabel_keys)
    show "distinct seen" using Cons.prems(2) by simp
    show "set seen \<subseteq> fst ` set ?c1" using Cons.prems(3) by (simp only: relabel_key_set) simp
  qed
  moreover have "map (\<lambda>(l, n). (l, if l \<in> set seen then n + 1 else n)) ?c1
      = map (\<lambda>(l, n). (l, if l \<in> set (label # seen) then n + 1 else n)) counts"
    using Cons.prems(2) by auto
  ultimately show ?case by (simp add: step)
qed

lemma count_vuln_eq:
  assumes "wf_vuln v" and "distinct (map fst counts)" and "''Edge - Chromium'' \<in> fst ` set counts"
  shows "count_vuln v counts =
     Inr (map (\<lambda>(l, n). (l, if credited l v then n + 1 else n)) counts)"
proof -
  from vuln_threats_wf[OF assms(1)] obtain th where
    th: "py_get v ''Threats'' (JArr []) = Inr th" "py_iter th = Inr (threats v)"
        "list_all wf_threat (threats v)"
    by blast
  from classify_threats_wf[OF th(3) assms(3), of "[]"] obtain seen where
    seen: "classify_threats counts (threats v) [] = Inr seen" "distinct seen"
          "set seen = {l \<in> fst ` set counts. credited l v}"
    by (auto simp: credited_def)
  have "credit_labels seen counts = Inr (map (\<lambda>(l, n). (l, if l \<in> set seen then n + 1 else n)) counts)"
    using assms(2) seen(2) seen(3) by (intro credit_labels_eq) auto
  moreover have "map (\<lambda>(l, n). (l, if l \<in> set seen then n + 1 else n)) counts
      = map (\<lambda>(l, n). (l, if credited l v then n + 1 else n)) counts"
    by (rule map_cong) (force simp: seen(3))+
  ultimately show ?thesis
    by (simp add: count_vuln_def th seen(1))
qed

lemma count_vulns_eq:
  assumes "list_all wf_vuln vs" and "distinct (map fst counts)" and "''Edge - Chromium'' \<in> fst ` set counts"
  shows "count_vulns vs counts =
     Inr (map (\<lambda>(l, n). (l, n + int (length (filter (credited l) vs)))) counts)"
  using assms
proof (induction vs arbitrary: counts)
  case Nil
  show ?case by simp
next
  case (Cons v vs)
  let ?c1 = "map (\<lambda>(l, n). (l, if credited l v then n + 1 else n)) counts"
  have step: "count_vuln v counts = Inr ?c1"
    using Cons.prems by (intro count_vuln_eq) simp_all
  have "count_vulns vs ?c1 = Inr (map (\<lambda>(l, n). (l, n + int (length (filter (credited l) vs)))) ?c1)"
  proof (rule Cons.IH)
    show "list_all wf_vuln vs" using Cons.prems(1) by simp
    show "distinct (map fst ?c1)" using Cons.prems(2) by (simp only: relabel_keys)
    show "''Edge - Chromium'' \<in> fst ` set ?c1" using Cons.prems(3) by (simp only: relabel_key_set)
  qed
  then show ?case by (simp add: step case_prod_unfold)
qed

lemma classification_counts_eq:
  assumes "list_all wf_vuln vs"
  shows "classification_counts (JArr vs) =
     Inr (map (\<lambda>l. (l, int (length (filter (credited l) vs)))) VULN_CLASSIFICATIONS)"
proof -
  have "count_vulns vs (map (\<lambda>label. (label, 0)) VULN_CLASSIFICATIONS) =
     Inr (map (\<lambda>(l, n). (l, n + int (length (filter (credited l) vs))))
            (map (\<lambda>label. (label, 0)) VULN_CLASSIFICATIONS))"
    using assms by (intro count_vulns_eq) (simp_all add: VULN_CLASSIFICATIONS_def)
  then show ?thesis by (simp add: classification_counts_def comp_def)
qed

lemma credited_edge:
  "credited ''Edge - Chromium'' v =
     list_ex (\<lambda>t. has_type THREAT_TYPE_VULN t \<and> description t = ''Edge - Chromium''
                  \<and> JStr ''11655'' \<in> set (product_ids t)) (threats v)"
  by (auto simp: credited_def names_label_def list_ex_iff)

section \<open>The classification counter on any input\<close>

lemma dict_incr_known: "dict_incr counts label = Inr c \<Longrightarrow> label \<in> fst ` set counts"
proof -
  assume "dict_incr counts label = Inr c"
  then obtain x where "map_of counts label = Some x"
    by (auto simp: dict_incr_def split: option.splits)
  from map_of_SomeD[OF this] show ?thesis by force
qed

lemma dict_incr_keys: "dict_incr counts label = Inr c \<Longrightarrow> map fst c = map fst counts"
proof -
  assume a: "dict_incr counts label = Inr c"
  then obtain x where "c = AList.update label (x + 1) counts"
    by (auto simp: dict_incr_def split: option.splits)
  with dict_incr_known[OF a] show ?thesis by (simp add: update_keys)
qed

lemma credit_labels_keys: "credit_labels seen counts = Inr c \<Longrightarrow> map fst c = map fst counts"
proof (induction seen arbitrary: counts)
  case Nil
  then show ?case by simp
next
  case (Cons label seen)
  then obtain c1 where "dict_incr counts label = Inr c1" "credit_labels seen c1 = Inr c"
    by (auto simp: and_then_Inr)
  then show ?case using Cons.IH[of c1] dict_incr_keys[of counts label c1] by simp
qed

lemma count_vuln_keys: "count_vuln v counts = Inr c \<Longrightarrow> map fst c = map fst counts"
  by (auto simp: count_vuln_def and_then_Inr dest: credit_labels_keys)

lemma count_vulns_keys: "count_vulns vs counts = Inr c \<Longrightarrow> map fst c = map fst counts"
proof (induction vs arbitrary: counts)
  case Nil
  then show ?case by simp
next
  case (Cons v vs)
  then obtain c1 where "count_vuln v counts = Inr c1" "count_vulns vs c1 = Inr c"
    by (auto simp: and_then_Inr)
  then show ?case using Cons.IH[of c1] count_vuln_keys[of v counts c1] by simp
qed

lemma classification_counts_keys:
  "classification_counts doc = Inr c \<Longrightarrow> map fst c = VULN_CLASSIFICATIONS"
  by (auto simp: classification_counts_def and_then_Inr comp_def dest!: count_vulns_keys)

lemma classify_threat_distinct:
  assumes "classify_threat counts t seen = Inr s" and "distinct seen"
  shows "distinct s"
proof -
  have c: "distinct (case desc of JStr x \<Rightarrow> set_add x seen | _ \<Rightarrow> seen)" for desc
    using assms(2) by (cases desc) simp_all
  from assms(1) c assms(2) show ?thesis
    by (auto simp: classify_threat_def and_then_Inr split: if_splits)
qed

lemma classify_threats_distinct:
  "classify_threats counts ts seen = Inr s \<Longrightarrow> distinct seen \<Longrightarrow> distinct s"
proof (induction ts arbitrary: seen)
  case Nil
  then show ?case by simp
next
  case (Cons t ts)
  from Cons.prems(1) obtain s1 where
    "classify_threat counts t seen = Inr s1" "classify_threats counts ts s1 = Inr s"
    by (auto simp: and_then_Inr)
  with Cons.IH[of s1] classify_threat_distinct[of counts t seen s1] Cons.prems(2)
  show ?case by simp
qed

lemma credit_labels_known:
  "credit_labels seen counts = Inr c \<Longrightarrow> set seen \<subseteq> fst ` set counts"
proof (induction seen arbitrary: counts)
  case Nil
  then show ?case by simp
next
  case (Cons label seen)
  then obtain c1 where c1: "dict_incr counts label = Inr c1" "credit_labels seen c1 = Inr c"
    by (auto simp: and_then_Inr)
  from c1(1) have "label \<in> fst ` set counts"
    by (rule dict_incr_known)
  moreover have "fst ` set c1 = fst ` set counts"
    using arg_cong[OF dict_incr_keys[OF c1(1)], of set] by (simp only: set_map)
  ultimately show ?case using Cons.IH[OF c1(2)] by simp
qed

lemma count_vuln_step:
  assumes "count_vuln v counts = Inr c" and "distinct (map fst counts)"
  shows "\<exists>S. c = map (\<lambda>(l, n). (l, if l \<in> S then n + 1 else n)) counts"
proof -
  from assms(1) obtain ts seen where
    s: "classify_threats counts ts [] = Inr seen" "credit_labels seen counts = Inr c"
    by (auto simp: count_vuln_def and_then_Inr)
  from classify_threats_distinct[OF s(1)] have "distinct seen" by simp
  with credit_labels_eq[OF assms(2) this credit_labels_known[OF s(2)]] s(2)
  show ?thesis by auto
qed

lemma count_vulns_bound:
  assumes "count_vulns vs counts = Inr c" and "distinct (map fst counts)"
  shows "list_all2 (\<lambda>(l, n) (l', n'). l' = l \<and> n \<le> n' \<and> n' \<le> n + int (length vs)) counts c"
  using assms
proof (induction vs arbitrary: counts)
  case Nil
  then show ?case by (simp add: list_all2_same case_prod_unfold)
next
  case (Cons v vs)
  from Cons.prems(1) obtain c1 where
    c1: "count_vuln v counts = Inr c1" "count_vulns vs c1 = Inr c"
    by (auto simp: and_then_Inr)
  from count_vuln_step[OF c1(1) Cons.prems(2)] obtain S where
    S: "c1 = map (\<lambda>(l, n). (l, if l \<in> S then n + 1 else n)) counts"
    by blast
  have d: "distinct (map fst c1)"
    using Cons.prems(2) by (simp only: count_vuln_keys[OF c1(1)])
  have one: "list_all2 (\<lambda>(l, n) (l', n'). l' = l \<and> n \<le> n' \<and> n' \<le> n + 1) counts c1"
    unfolding S by (simp add: list_all2_map2 list_all2_same case_prod_unfold)
  from Cons.IH[OF c1(2) d]
  have rest: "list_all2 (\<lambda>(l, n) (l', n'). l' = l \<and> n \<le> n' \<and> n' \<le> n + int (length vs)) c1 c" .
  from list_all2_trans[where ?P1.0 = "\<lambda>(l, n) (l', n'). l' = l \<and> n \<le> n' \<and> n' \<le> n + 1"
      and ?P2.0 = "\<lambda>(l, n) (l', n'). l' = l \<and> n \<le> n' \<and> n' \<le> n + int (length vs)"
      and ?P3.0 = "\<lambda>(l, n) (l', n'). l' = l \<and> n \<le> n' \<and> n' \<le> n + int (length (v # vs))",
      OF _ one rest]
  show ?case by auto
qed

lemma classification_counts_bound:
  assumes "classification_counts (JArr vs) = Inr c"
  shows "\<forall>(l, n) \<in> set c. 0 \<le> n \<and> n \<le> int (length vs)"
proof -
  let ?c0 = "map (\<lambda>label. (label, 0::int)) VULN_CLASSIFICATIONS"
  from assms have r: "count_vulns vs ?c0 = Inr c"
    by (simp add: classification_counts_def)
  have "distinct (map fst ?c0)" by (simp add: VULN_CLASSIFICATIONS_def comp_def)
  from count_vulns_bound[OF r this]
  have a: "list_all2 (\<lambda>(l, n) (l', n'). l' = l \<and> n \<le> n' \<and> n' \<le> n + int (length vs)) ?c0 c" .
  show ?thesis
  proof (clarify)
    fix l n assume "(l, n) \<in> set c"
    then obtain i where i: "i < length c" "c ! i = (l, n)" by (auto simp: in_set_conv_nth)
    from a have len: "length ?c0 = length c" by (rule list_all2_lengthD)
    from list_all2_nthD2[OF a i(1)] i(2) len i(1)
    show "0 \<le> n \<and> n \<le> int (length vs)"
      by (auto simp: case_prod_unfold)
  qed
qed

section \<open>The extractors and the filter on well-shaped records\<close>

lemma first_base_score_wf:
  assumes "wf_vuln v"
  shows "first_base_score v = Inr (score_of_first_set v)"
proof -
  from vuln_score_sets_wf[OF assms] obtain ss where
    ss: "py_get v ''CVSSScoreSets'' (JArr []) = Inr ss" "py_iter ss = Inr (score_sets v)"
        "list_all wf_score_set (score_sets v)"
    by blast
  show ?thesis
  proof (cases "score_sets v")
    case Nil
    then show ?thesis by (simp add: first_base_score_def ss score_of_first_set_def)
  next
    case (Cons s rest)
    with ss(3) have "wf_score_set s" by simp
    from score_set_base_wf[OF this] Cons show ?thesis
      by (auto simp: first_base_score_def ss score_of_first_set_def)
  qed
qed

lemma py_float_num:
  assumes "is_num b" and "exact_to_2_53 fi"
    and "case b of JInt n \<Rightarrow> \<bar>n\<bar> \<le> 2 ^ 53 | _ \<Rightarrow> True"
  shows "py_float fi fl b = Inr (num_value b)"
  using assms by (cases b) (simp_all add: is_num_def exact_to_2_53_def num_value_def)

lemma first_base_float_wf:
  assumes "wf_vuln v" and "exact_to_2_53 fi" and "first_score_exact v"
  shows "first_base_float fi fl v = Inr (severity_score v)"
proof -
  from vuln_score_sets_wf[OF assms(1)] obtain ss where
    ss: "py_get v ''CVSSScoreSets'' (JArr []) = Inr ss" "py_iter ss = Inr (score_sets v)"
        "list_all wf_score_set (score_sets v)"
    by blast
  show ?thesis
  proof (cases "score_sets v")
    case Nil
    then show ?thesis
      by (simp add: first_base_float_def ss severity_score_def score_of_first_set_def num_value_def)
  next
    case (Cons s rest)
    with ss(3) have "wf_score_set s" by simp
    from score_set_base_wf[OF this] obtain b where
      b: "py_get s ''BaseScore'' (JInt 0) = Inr b"
         "b = (case field s ''BaseScore'' of None \<Rightarrow> JInt 0 | Some x \<Rightarrow> x)" "is_num b"
      by blast
    from b(2) Cons have sc: "score_of_first_set v = b"
      by (simp add: score_of_first_set_def)
    with assms(3) have "case b of JInt n \<Rightarrow> \<bar>n\<bar> \<le> 2 ^ 53 | _ \<Rightarrow> True"
      by (simp add: first_score_exact_def)
    from py_float_num[OF b(3) assms(2) this, of fl] show ?thesis
      by (simp add: first_base_float_def ss Cons b(1) severity_score_def sc)
  qed
qed

lemma is_wild_threat_wf:
  assumes "wf_threat t"
  shows "is_wild_threat t =
     Inr (has_type THREAT_TYPE_EXPLOIT t \<and> sublist ''Exploited:Yes'' (description t))"
proof -
  from threat_type_get[OF assms] obtain ty where
    "py_get t ''Type'' JNull = Inr ty" "\<forall>n. py_eq_int ty n = has_type n t" by blast
  then show ?thesis
    by (simp add: is_wild_threat_def threat_description_wf[OF assms])
qed

lemma is_likely_threat_wf:
  assumes "wf_threat t"
  shows "is_likely_threat lower t =
     Inr (has_type THREAT_TYPE_EXPLOIT t
          \<and> sublist ''exploitation more likely'' (lower (description t)))"
proof -
  from threat_type_get[OF assms] obtain ty where
    "py_get t ''Type'' JNull = Inr ty" "\<forall>n. py_eq_int ty n = has_type n t" by blast
  then show ?thesis
    by (simp add: is_likely_threat_def threat_description_wf[OF assms])
qed

lemma wild_row_wf: "wf_vuln v \<Longrightarrow> wild_row v base = Inr [(''CVE'', cve_of v), (''Score'', base), (''Title'', title_of v)]"
  by (simp add: wild_row_def vuln_cve_wf vuln_title_wf)

lemma severity_row_wf: "wf_vuln v \<Longrightarrow> severity_row v bs = Inr [(''CVE'', cve_of v), (''Score'', JFloat bs), (''Title'', title_of v)]"
  by (simp add: severity_row_def vuln_cve_wf vuln_title_wf)

lemma likely_row_wf: "wf_vuln v \<Longrightarrow> likely_row v = Inr (likely_row_of v)"
  by (simp add: likely_row_def likely_row_of_def vuln_cve_wf vuln_title_wf)

lemma wild_threats_wf:
  assumes "wf_vuln v" and "list_all wf_threat ts"
  shows "wild_threats v base ts rows =
     Inr (if list_ex (\<lambda>t. has_type THREAT_TYPE_EXPLOIT t \<and> sublist ''Exploited:Yes'' (description t)) ts
          then rows @ [[(''CVE'', cve_of v), (''Score'', base), (''Title'', title_of v)]]
          else rows)"
  using assms(2)
  by (induction ts) (simp_all add: is_wild_threat_wf wild_row_wf[OF assms(1)])

lemma likely_threats_wf:
  assumes "wf_vuln v" and "list_all wf_threat ts"
  shows "likely_threats lower v ts rows =
     Inr (if list_ex (\<lambda>t. has_type THREAT_TYPE_EXPLOIT t
                \<and> sublist ''exploitation more likely'' (lower (description t))) ts
          then rows @ [likely_row_of v]
          else rows)"
  using assms(2)
  by (induction ts) (simp_all add: is_likely_threat_wf likely_row_wf[OF assms(1)])

lemma wild_vuln_eq:
  assumes "wf_vuln v"
  shows "wild_vuln v rows = Inr (if exploited_yes v then rows @ [wild_row_of v] else rows)"
proof -
  from vuln_threats_wf[OF assms] obtain th where
    th: "py_get v ''Threats'' (JArr []) = Inr th" "py_iter th = Inr (threats v)"
        "list_all wf_threat (threats v)"
    by blast
  show ?thesis
    by (simp add: wild_vuln_def first_base_score_wf[OF assms] th(1,2)
        wild_threats_wf[OF assms th(3)] exploited_yes_def wild_row_of_def)
qed

lemma likely_vuln_eq:
  assumes "wf_vuln v"
  shows "likely_vuln lower v rows = Inr (if more_likely lower v then rows @ [likely_row_of v] else rows)"
proof -
  from vuln_threats_wf[OF assms] obtain th where
    th: "py_get v ''Threats'' (JArr []) = Inr th" "py_iter th = Inr (threats v)"
        "list_all wf_threat (threats v)"
    by blast
  show ?thesis
    by (simp add: likely_vuln_def th(1,2) likely_threats_wf[OF assms th(3)] more_likely_def)
qed

lemma severity_vuln_eq:
  assumes "wf_vuln v" and "exact_to_2_53 fi" and "first_score_exact v"
  shows "severity_vuln fi fl th v rows =
     Inr (if th \<le> severity_score v then rows @ [severity_row_of v] else rows)"
  by (simp add: severity_vuln_def first_base_float_wf[OF assms] severity_row_wf[OF assms(1)]
      severity_row_of_def)

lemma wild_vulns_eq:
  "list_all wf_vuln vs \<Longrightarrow>
   wild_vulns vs rows = Inr (rows @ map wild_row_of (filter exploited_yes vs))"
  by (induction vs arbitrary: rows) (simp_all add: wild_vuln_eq)

lemma likely_vulns_eq:
  "list_all wf_vuln vs \<Longrightarrow>
   likely_vulns lower vs rows = Inr (rows @ map likely_row_of (filter (more_likely lower) vs))"
  by (induction vs arbitrary: rows) (simp_all add: likely_vuln_eq)

lemma severity_vulns_eq:
  "list_all wf_vuln vs \<Longrightarrow> exact_to_2_53 fi \<Longrightarrow> list_all first_score_exact vs \<Longrightarrow>
   severity_vulns fi fl th vs rows =
     Inr (rows @ map severity_row_of (filter (\<lambda>v. th \<le> severity_score v) vs))"
  by (induction vs arbitrary: rows) (simp_all add: severity_vuln_eq)

lemma exploited_in_wild_eq:
  "list_all wf_vuln vs \<Longrightarrow>
   exploited_in_wild (JArr vs) = Inr (map wild_row_of (filter exploited_yes vs))"
  by (simp add: exploited_in_wild_def wild_vulns_eq)

lemma likely_exploited_eq:
  "list_all wf_vuln vs \<Longrightarrow>
   likely_exploited lower (JArr vs) = Inr (map likely_row_of (filter (more_likely lower) vs))"
  by (simp add: likely_exploited_def likely_vulns_eq)

lemma high_severity_eq:
  "list_all wf_vuln vs \<Longrightarrow> exact_to_2_53 fi \<Longrightarrow> list_all first_score_exact vs \<Longrightarrow>
   high_severity fi fl threshold (JArr vs) =
     Inr (map severity_row_of
            (filter (\<lambda>v. (case threshold of None \<Rightarrow> 8 | Some th \<Rightarrow> th) \<le> severity_score v) vs))"
  by (simp add: high_severity_def severity_vulns_eq)

lemma lower_all_caps:
  assumes "lowers_ascii lower"
  shows "lower ''EXPLOITATION MORE LIKELY'' = ''exploitation more likely''"
proof -
  have "list_all (\<lambda>c. (of_char c :: nat) < 128) ''EXPLOITATION MORE LIKELY''" by simp
  with assms have "lower ''EXPLOITATION MORE LIKELY'' = ascii_lower ''EXPLOITATION MORE LIKELY''"
    by (simp add: lowers_ascii_def)
  then show ?thesis by (simp add: ascii_lower_def lower_char_def char_of_def bit_Suc_0_iff)
qed

lemma first_found_agrees:
  "(case score_sets v of [] \<Rightarrow> True | s # _ \<Rightarrow> field s ''BaseScore'' \<noteq> None) \<Longrightarrow>
   first_score_found v = score_of_first_set v"
  by (cases "score_sets v")
    (auto simp: first_score_found_def score_of_first_set_def List.map_filter_simps)




section \<open>The example records\<close>

lemmas shape_defs = wf_vuln_def wf_threat_def wf_score_set_def opt_field_def arr_of_def
  is_obj_def is_str_def is_arr_def is_num_def field_def

lemmas view_defs = threats_def score_sets_def product_ids_def description_def has_type_def
  cve_of_def title_of_def field_def THREAT_TYPE_VULN_def THREAT_TYPE_EXPLOIT_def

lemmas lower_char_eval = lower_char_def char_of_def bit_Suc_0_iff

lemma sublist_step: "sublist (x # xs) (y # ys) = (prefix (x # xs) (y # ys) \<or> sublist (x # xs) ys)"
  by (rule sublist_Cons_right)

lemma wf_unknown_label: "wf_vuln unknown_label"
  by (simp add: unknown_label_def shape_defs)

lemma wf_spoofing_twice: "wf_vuln spoofing_twice"
  by (simp add: spoofing_twice_def spoofing_threat_def shape_defs)

lemma wf_edge_other: "wf_vuln edge_other"
  by (simp add: edge_other_def shape_defs)

lemma wf_edge_sentinel: "wf_vuln edge_sentinel"
  by (simp add: edge_sentinel_def edge_sentinel_threat_def shape_defs)

lemma wf_exploit_threat: "wf_threat (exploit_threat s)"
  by (simp add: exploit_threat_def shape_defs)

lemma exploit_threat_views:
  "has_type n (exploit_threat s) = (n = 1)" "description (exploit_threat s) = s"
  by (auto simp: exploit_threat_def view_defs)

lemma wf_wild_second: "wf_vuln wild_second"
  by (simp add: wild_second_def wf_exploit_threat wf_vuln_def opt_field_def arr_of_def is_obj_def field_def)

lemma wf_wild_lowercase: "wf_vuln wild_lowercase"
  by (simp add: wild_lowercase_def wf_exploit_threat wf_vuln_def opt_field_def arr_of_def is_obj_def field_def)

lemma wf_likely_caps: "wf_vuln likely_caps"
  by (simp add: likely_caps_def wf_exploit_threat wf_vuln_def opt_field_def arr_of_def is_obj_def field_def)

lemma wf_no_scores: "wf_vuln no_scores"
  by (simp add: no_scores_def shape_defs)

lemma wf_score_91: "wf_vuln score_91"
  by (simp add: score_91_def shape_defs)

lemma wf_score_8: "wf_vuln score_8"
  by (simp add: score_8_def shape_defs)

lemma wf_late_score: "wf_vuln late_score"
  by (simp add: late_score_def wf_exploit_threat wf_vuln_def wf_score_set_def opt_field_def
      arr_of_def is_obj_def is_num_def field_def)

lemma wf_wild_scored: "wf_vuln wild_scored"
  by (simp add: wild_scored_def wf_exploit_threat wf_vuln_def wf_score_set_def opt_field_def
      arr_of_def is_obj_def is_num_def field_def)


lemma example_scores:
  "severity_score no_scores = 0" "severity_score score_91 = 91 / 10"
  "severity_score score_8 = 8" "severity_score late_score = 0"
  "score_sets no_scores = []"
  by (simp_all add: severity_score_def score_of_first_set_def num_value_def score_sets_def
      field_def no_scores_def score_91_def score_8_def late_score_def)

lemma exact_float_exact: "exact_to_2_53 exact_float"
  by (simp add: exact_to_2_53_def exact_float_def)

lemma example_exact:
  "first_score_exact no_scores" "first_score_exact score_91" "first_score_exact score_8"
  "first_score_exact late_score" "first_score_exact empty_record"
  by (simp_all add: first_score_exact_def score_of_first_set_def score_sets_def field_def
      no_scores_def score_91_def score_8_def late_score_def empty_record_def)

lemma example_wild:
  "exploited_yes late_score" "exploited_yes wild_scored"
  "score_of_first_set late_score = JInt 0" "score_of_first_set wild_scored = JFloat (15 / 2)"
  "cve_of late_score = JStr ''CVE-5''" "title_of late_score = JNull"
  by (simp_all add: exploited_yes_def late_score_def wild_scored_def threats_def score_sets_def
      score_of_first_set_def cve_of_def title_of_def field_def exploit_threat_views
      THREAT_TYPE_EXPLOIT_def)

lemma counts_unknown_label:
  "classification_counts (JArr [unknown_label]) = Inr tampering_counts"
  by (simp add: classification_counts_def count_vuln_def classify_threat_def unknown_label_def
      THREAT_TYPE_VULN_def VULN_CLASSIFICATIONS_def tampering_counts_def)

lemma counts_spoofing_twice:
  "classification_counts (JArr [spoofing_twice, unknown_label]) = Inr spoofing_counts"
  by (simp add: classification_counts_def count_vuln_def classify_threat_def unknown_label_def
      spoofing_twice_def spoofing_threat_def set_add_def dict_incr_def
      THREAT_TYPE_VULN_def VULN_CLASSIFICATIONS_def spoofing_counts_def)

lemma main_empty_bulletin: "main exact_float never_float ascii_lower ''2024-Jan'' empty_bulletin = Inr empty_report"
  by (simp add: main_def stats_init_def fetch_json_def empty_bulletin_def empty_report_def
      classification_counts_def exploited_in_wild_def high_severity_def likely_exploited_def
      VULN_CLASSIFICATIONS_def to_excel_def Let_def)

section \<open>Properties of the classification counter\<close>

text \<open>
  Claim C1. The counter credits a label at most once per vulnerability: putting a
  vulnerability into the list raises the count of a label by exactly 1 when one or more
  of its Vulnerability-type threat entries name the label, however many do, and leaves
  it unchanged otherwise.
\<close>

theorem classification_once_per_vulnerability:
  assumes "list_all wf_vuln (xs @ v # ys)"
  shows "\<exists>c. classification_counts (JArr (xs @ ys)) = Inr c
           \<and> classification_counts (JArr (xs @ v # ys)) =
               Inr (map (\<lambda>(l, n). (l, if list_ex (names_label l) (threats v) then n + 1 else n)) c)"
proof -
  from assms have wf: "list_all wf_vuln (xs @ ys)" by simp
  have "classification_counts (JArr (xs @ v # ys)) =
      Inr (map (\<lambda>l. (l, int (length (filter (credited l) (xs @ v # ys))))) VULN_CLASSIFICATIONS)"
    using assms by (rule classification_counts_eq)
  moreover have "map (\<lambda>l. (l, int (length (filter (credited l) (xs @ v # ys))))) VULN_CLASSIFICATIONS
      = map (\<lambda>(l, n). (l, if list_ex (names_label l) (threats v) then n + 1 else n))
          (map (\<lambda>l. (l, int (length (filter (credited l) (xs @ ys))))) VULN_CLASSIFICATIONS)"
    by (simp add: credited_def)
  ultimately show ?thesis
    using classification_counts_eq[OF wf] by simp
qed

theorem classification_once_per_vulnerability_witness:
  "list_all wf_vuln ([] @ spoofing_twice # [])
   \<and> list_ex (names_label ''Spoofing'') (threats spoofing_twice)
   \<and> length (filter (names_label ''Spoofing'') (threats spoofing_twice)) = 2
   \<and> (\<exists>c. classification_counts (JArr ([] @ [])) = Inr c
           \<and> map_of c ''Spoofing'' = Some 0
           \<and> classification_counts (JArr ([] @ spoofing_twice # [])) =
               Inr (map (\<lambda>(l, n). (l, if list_ex (names_label l) (threats spoofing_twice) then n + 1 else n)) c))
   \<and> classification_counts (JArr [spoofing_twice]) =
       Inr [(''Elevation of Privilege'', 0), (''Security Feature Bypass'', 0),
            (''Remote Code Execution'', 0), (''Information Disclosure'', 0),
            (''Denial of Service'', 0), (''Spoofing'', 1), (''Edge - Chromium'', 0)]"
proof -
  have h: "list_all wf_vuln ([] @ spoofing_twice # [])" by (simp add: wf_spoofing_twice)
  have e: "classification_counts (JArr []) =
      Inr (map (\<lambda>l. (l, 0)) VULN_CLASSIFICATIONS)"
    by (simp add: classification_counts_def)
  have n: "list_ex (names_label l) (threats spoofing_twice) = (l = ''Spoofing'')" for l
    by (auto simp: spoofing_twice_def spoofing_threat_def names_label_def view_defs)
  have k: "length (filter (names_label ''Spoofing'') (threats spoofing_twice)) = 2"
    by (simp add: spoofing_twice_def spoofing_threat_def names_label_def view_defs)
  from classification_once_per_vulnerability [OF h] show ?thesis
    using h k by (simp add: e n VULN_CLASSIFICATIONS_def)
qed

text \<open>
  Claim C2. A Vulnerability-type threat entry whose description is "Edge - Chromium"
  puts that label into the matched labels of its vulnerability if and only if its
  product identifiers contain "11655", and otherwise leaves the matched labels as they
  were; the count of the label is the number of vulnerabilities that have such an entry
  with the sentinel.
\<close>

theorem edge_chromium_needs_sentinel:
  assumes "list_all wf_vuln vs" and "v \<in> set vs" and "t \<in> set (threats v)"
    and "has_type THREAT_TYPE_VULN t" and "description t = ''Edge - Chromium''"
  shows "classify_threat counts t seen =
           Inr (if JStr ''11655'' \<in> set (product_ids t) then set_add ''Edge - Chromium'' seen else seen)
       \<and> (\<exists>c. classification_counts (JArr vs) = Inr c
            \<and> map_of c ''Edge - Chromium'' =
                Some (int (length (filter
                  (\<lambda>v. list_ex (\<lambda>t. has_type THREAT_TYPE_VULN t
                                   \<and> description t = ''Edge - Chromium''
                                   \<and> JStr ''11655'' \<in> set (product_ids t)) (threats v)) vs))))"
proof -
  from assms(1,2) have "wf_vuln v" by (simp add: list_all_iff)
  then have "wf_threat t" using assms(3) by (rule wf_threat_of_vuln)
  then have "classify_threat counts t seen =
      Inr (if JStr ''11655'' \<in> set (product_ids t) then set_add ''Edge - Chromium'' seen else seen)"
    using assms(4,5) by (simp add: classify_threat_eq)
  moreover have "map_of (map (\<lambda>l. (l, int (length (filter (credited l) vs)))) VULN_CLASSIFICATIONS)
      ''Edge - Chromium'' = Some (int (length (filter (credited ''Edge - Chromium'') vs)))"
    by (simp add: VULN_CLASSIFICATIONS_def)
  moreover have "credited ''Edge - Chromium'' =
      (\<lambda>v. list_ex (\<lambda>t. has_type THREAT_TYPE_VULN t \<and> description t = ''Edge - Chromium''
                        \<and> JStr ''11655'' \<in> set (product_ids t)) (threats v))"
    by (rule ext) (rule credited_edge)
  ultimately show ?thesis
    using classification_counts_eq[OF assms(1)] by simp
qed

theorem edge_chromium_needs_sentinel_witness:
  "list_all wf_vuln [edge_other, edge_sentinel] \<and> edge_sentinel \<in> set [edge_other, edge_sentinel]
   \<and> edge_sentinel_threat \<in> set (threats edge_sentinel)
   \<and> has_type THREAT_TYPE_VULN edge_sentinel_threat
   \<and> description edge_sentinel_threat = ''Edge - Chromium''
   \<and> classify_threat [] edge_sentinel_threat [] = Inr [''Edge - Chromium'']
   \<and> (\<exists>c. classification_counts (JArr [edge_other, edge_sentinel]) = Inr c
          \<and> map_of c ''Edge - Chromium'' = Some 1)"
proof -
  have h1: "list_all wf_vuln [edge_other, edge_sentinel]"
    by (simp add: wf_edge_other wf_edge_sentinel)
  have h2: "edge_sentinel \<in> set [edge_other, edge_sentinel]" by simp
  have h3: "edge_sentinel_threat \<in> set (threats edge_sentinel)"
    by (simp add: edge_sentinel_def view_defs)
  have h4: "has_type THREAT_TYPE_VULN edge_sentinel_threat"
    by (simp add: edge_sentinel_threat_def view_defs)
  have h5: "description edge_sentinel_threat = ''Edge - Chromium''"
    by (simp add: edge_sentinel_threat_def view_defs)
  have p: "product_ids edge_sentinel_threat = [JStr ''11655'', JStr ''5'']"
    by (simp add: edge_sentinel_threat_def view_defs)
  have f: "filter (\<lambda>v. list_ex (\<lambda>t. has_type THREAT_TYPE_VULN t
                                   \<and> description t = ''Edge - Chromium''
                                   \<and> JStr ''11655'' \<in> set (product_ids t)) (threats v))
             [edge_other, edge_sentinel] = [edge_sentinel]"
    by (simp add: edge_other_def edge_sentinel_def edge_sentinel_threat_def view_defs)
  from edge_chromium_needs_sentinel [OF h1 h2 h3 h4 h5, of "[]" "[]"] show ?thesis
    unfolding f p using h1 h3 h4 h5 by (simp add: set_add_def)
qed

text \<open>
  Claim C3. On every list of well-shaped vulnerability records, the empty list and records
  with unknown threat descriptions included, the counter returns a table; and whatever
  the input, a table that the counter returns has exactly the seven fixed labels as keys,
  each once, in the order of the glossary, which does not depend on the counts.
\<close>

theorem classification_labels_fixed:
  "(list_all wf_vuln vs \<longrightarrow> (\<exists>c. classification_counts (JArr vs) = Inr c))
   \<and> (classification_counts doc = Inr c \<longrightarrow>
        map fst c =
          [''Elevation of Privilege'', ''Security Feature Bypass'', ''Remote Code Execution'',
           ''Information Disclosure'', ''Denial of Service'', ''Spoofing'', ''Edge - Chromium'']
        \<and> distinct (map fst c) \<and> length c = 7)"
proof -
  have a: "\<exists>c. classification_counts (JArr vs) = Inr c" if "list_all wf_vuln vs"
    using classification_counts_eq[OF that] by simp
  have b: "map fst c =
          [''Elevation of Privilege'', ''Security Feature Bypass'', ''Remote Code Execution'',
           ''Information Disclosure'', ''Denial of Service'', ''Spoofing'', ''Edge - Chromium'']
        \<and> distinct (map fst c) \<and> length c = 7"
    if "classification_counts doc = Inr c"
  proof -
    from classification_counts_keys[OF that]
    have k: "map fst c =
          [''Elevation of Privilege'', ''Security Feature Bypass'', ''Remote Code Execution'',
           ''Information Disclosure'', ''Denial of Service'', ''Spoofing'', ''Edge - Chromium'']"
      by (simp add: VULN_CLASSIFICATIONS_def)
    from arg_cong[OF k, of length] have "length c = 7" by simp
    with k show ?thesis by simp
  qed
  from a b show ?thesis by blast
qed

theorem classification_labels_fixed_witness:
  "list_all wf_vuln [unknown_label]
   \<and> classification_counts (JArr [unknown_label]) = Inr tampering_counts
   \<and> map fst tampering_counts =
          [''Elevation of Privilege'', ''Security Feature Bypass'', ''Remote Code Execution'',
           ''Information Disclosure'', ''Denial of Service'', ''Spoofing'', ''Edge - Chromium'']
   \<and> distinct (map fst tampering_counts) \<and> length tampering_counts = 7"
proof -
  have h: "list_all wf_vuln [unknown_label]" by (simp add: wf_unknown_label)
  from classification_labels_fixed [of "[unknown_label]" "JArr [unknown_label]" tampering_counts]
  show ?thesis using h counts_unknown_label by blast
qed

text \<open>
  Claim C10. On every list of well-shaped vulnerability records the counter returns a
  table; and whatever the records, each of the seven counts of a table that the counter
  returns is an integer between 0 and the number of vulnerabilities in the list.
\<close>

theorem classification_count_bounds:
  "(list_all wf_vuln vs \<longrightarrow> (\<exists>c. classification_counts (JArr vs) = Inr c))
   \<and> (classification_counts (JArr vs) = Inr c \<longrightarrow>
        length c = 7 \<and> (\<forall>(l, n) \<in> set c. 0 \<le> n \<and> n \<le> int (length vs)))"
proof -
  have a: "\<exists>c. classification_counts (JArr vs) = Inr c" if "list_all wf_vuln vs"
    using classification_counts_eq[OF that] by simp
  have b: "length c = 7 \<and> (\<forall>(l, n) \<in> set c. 0 \<le> n \<and> n \<le> int (length vs))"
    if "classification_counts (JArr vs) = Inr c"
  proof -
    from classification_counts_keys[OF that] have "length (map fst c) = 7"
      by (simp add: VULN_CLASSIFICATIONS_def)
    with classification_counts_bound[OF that] show ?thesis by simp
  qed
  from a b show ?thesis by blast
qed

theorem classification_count_bounds_witness:
  "list_all wf_vuln [spoofing_twice, unknown_label]
   \<and> classification_counts (JArr [spoofing_twice, unknown_label]) = Inr spoofing_counts
   \<and> length spoofing_counts = 7
   \<and> list_all (\<lambda>(l, n). 0 \<le> n \<and> n \<le> int (length [spoofing_twice, unknown_label]))
        spoofing_counts"
proof -
  have h: "list_all wf_vuln [spoofing_twice, unknown_label]"
    by (simp add: wf_unknown_label wf_spoofing_twice)
  from classification_count_bounds [of "[spoofing_twice, unknown_label]" spoofing_counts]
  show ?thesis using h counts_spoofing_twice by (simp add: list_all_iff)
qed

section \<open>Properties of the extractors\<close>

text \<open>
  Claim C4. On well-shaped records the exploited-in-wild extractor returns one row for
  each vulnerability that has an Exploit-type threat entry whose description contains
  "Exploited:Yes" as it is written, and no row for any other vulnerability, in the
  order of the input: never two rows for one vulnerability, wherever its first matching
  entry stands and however many match.
\<close>

theorem exploited_in_wild_rows:
  assumes "list_all wf_vuln vs"
  shows "exploited_in_wild (JArr vs) =
           Inr (map wild_row_of
             (filter (\<lambda>v. list_ex (\<lambda>t. has_type THREAT_TYPE_EXPLOIT t
                                     \<and> sublist ''Exploited:Yes'' (description t)) (threats v)) vs))
       \<and> (\<forall>v \<in> set vs. \<forall>rows.
             wild_vuln v rows =
               Inr (if list_ex (\<lambda>t. has_type THREAT_TYPE_EXPLOIT t
                                   \<and> sublist ''Exploited:Yes'' (description t)) (threats v)
                    then rows @ [wild_row_of v] else rows))"
proof -
  have "exploited_in_wild (JArr vs) = Inr (map wild_row_of (filter exploited_yes vs))
      \<and> (\<forall>v \<in> set vs. \<forall>rows.
            wild_vuln v rows = Inr (if exploited_yes v then rows @ [wild_row_of v] else rows))"
    using exploited_in_wild_eq[OF assms] assms
    by (simp add: wild_vuln_eq list_all_iff)
  then show ?thesis unfolding exploited_yes_def .
qed

theorem exploited_in_wild_rows_witness:
  "list_all wf_vuln [wild_second, wild_lowercase]
   \<and> exploited_in_wild (JArr [wild_second, wild_lowercase]) = Inr [wild_row_of wild_second]
   \<and> wild_vuln wild_second [] = Inr [wild_row_of wild_second]
   \<and> wild_vuln wild_lowercase [] = Inr []
   \<and> \<not> sublist ''Exploited:Yes'' ''Exploited:yes''"
proof -
  have h: "list_all wf_vuln [wild_second, wild_lowercase]"
    by (simp add: wf_wild_second wf_wild_lowercase)
  have n: "\<not> sublist ''Exploited:Yes'' ''Exploited:yes''"
    by (simp add: sublist_step)
  have t: "threats wild_second = [exploit_threat ''Exploited:No'', exploit_threat ''Exploited:Yes'',
                               exploit_threat ''Exploited:Yes'']"
       "threats wild_lowercase = [exploit_threat ''Exploited:yes'']"
    by (simp_all add: wild_second_def wild_lowercase_def threats_def field_def)
  from exploited_in_wild_rows [OF h] show ?thesis
    using h n by (simp add: t exploit_threat_views THREAT_TYPE_EXPLOIT_def sublist_step)
qed

text \<open>
  Claim C5. On well-shaped records the likely-exploited extractor returns one row for
  each vulnerability that has an Exploit-type threat entry whose description, lower-cased
  by \<^verbatim>\<open>str.lower\<close>, contains "exploitation more likely", and no row for any other, in
  the order of the input; the scan of a vulnerability's entries ends at the first match,
  so what follows that entry has no effect. As \<^verbatim>\<open>str.lower\<close> lower-cases the ASCII
  letters, an Exploit-type entry with the description "EXPLOITATION MORE LIKELY" gives
  its vulnerability a row.
\<close>

theorem likely_exploited_rows:
  assumes "list_all wf_vuln vs"
  shows "likely_exploited lower (JArr vs) =
           Inr (map likely_row_of
             (filter (\<lambda>v. list_ex (\<lambda>t. has_type THREAT_TYPE_EXPLOIT t
                                     \<and> sublist ''exploitation more likely''
                                          (lower (description t))) (threats v)) vs))
       \<and> (\<forall>v \<in> set vs. \<forall>t ts rows.
             is_likely_threat lower t = Inr True \<longrightarrow>
             likely_threats lower v (t # ts) rows = Inr (rows @ [likely_row_of v]))
       \<and> (lowers_ascii lower \<longrightarrow>
            (\<forall>v \<in> set vs. \<forall>rows.
               list_ex (\<lambda>t. has_type THREAT_TYPE_EXPLOIT t
                           \<and> description t = ''EXPLOITATION MORE LIKELY'') (threats v) \<longrightarrow>
               likely_vuln lower v rows = Inr (rows @ [likely_row_of v])))"
proof -
  have a: "likely_exploited lower (JArr vs) = Inr (map likely_row_of (filter (more_likely lower) vs))
      \<and> (\<forall>v \<in> set vs. \<forall>t ts rows.
            is_likely_threat lower t = Inr True \<longrightarrow>
            likely_threats lower v (t # ts) rows = Inr (rows @ [likely_row_of v]))"
    using likely_exploited_eq[OF assms] assms
    by (simp add: likely_row_wf list_all_iff)
  have b: "likely_vuln lower v rows = Inr (rows @ [likely_row_of v])"
    if l: "lowers_ascii lower" and v: "v \<in> set vs"
      and e: "list_ex (\<lambda>t. has_type THREAT_TYPE_EXPLOIT t
                           \<and> description t = ''EXPLOITATION MORE LIKELY'') (threats v)"
    for v rows
  proof -
    from v assms have w: "wf_vuln v" by (simp add: list_all_iff)
    from e obtain t where t: "t \<in> set (threats v)" "has_type THREAT_TYPE_EXPLOIT t"
        "description t = ''EXPLOITATION MORE LIKELY''"
      by (auto simp: list_ex_iff)
    from t(3) have "sublist ''exploitation more likely'' (lower (description t))"
      by (simp add: lower_all_caps[OF l])
    with t(1,2) have "more_likely lower v"
      by (auto simp: more_likely_def list_ex_iff)
    then show ?thesis by (simp add: likely_vuln_eq[OF w])
  qed
  from a b show ?thesis unfolding more_likely_def by blast
qed

theorem likely_exploited_rows_witness:
  "list_all wf_vuln [wild_second, likely_caps] \<and> lowers_ascii ascii_lower
   \<and> ascii_lower ''EXPLOITATION MORE LIKELY'' = ''exploitation more likely''
   \<and> likely_exploited ascii_lower (JArr [wild_second, likely_caps]) = Inr [likely_row_of likely_caps]
   \<and> is_likely_threat ascii_lower (exploit_threat ''EXPLOITATION MORE LIKELY'') = Inr True
   \<and> likely_threats ascii_lower likely_caps [exploit_threat ''EXPLOITATION MORE LIKELY'', JNull] []
       = Inr [likely_row_of likely_caps]
   \<and> likely_vuln ascii_lower likely_caps [] = Inr [likely_row_of likely_caps]"
proof -
  have h: "list_all wf_vuln [wild_second, likely_caps]"
    by (simp add: wf_wild_second wf_likely_caps)
  have la: "lowers_ascii ascii_lower" by (simp add: lowers_ascii_def)
  have l: "ascii_lower ''EXPLOITATION MORE LIKELY'' = ''exploitation more likely''"
       "ascii_lower ''Exploitation More Likely'' = ''exploitation more likely''"
       "ascii_lower ''Exploited:No'' = ''exploited:no''"
       "ascii_lower ''Exploited:Yes'' = ''exploited:yes''"
    by (simp_all add: ascii_lower_def lower_char_eval)
  have t: "threats wild_second = [exploit_threat ''Exploited:No'', exploit_threat ''Exploited:Yes'',
                               exploit_threat ''Exploited:Yes'']"
       "threats likely_caps = [exploit_threat ''EXPLOITATION MORE LIKELY'',
                               exploit_threat ''Exploitation More Likely'']"
    by (simp_all add: wild_second_def likely_caps_def threats_def field_def)
  have m: "is_likely_threat ascii_lower (exploit_threat ''EXPLOITATION MORE LIKELY'') = Inr True"
    by (simp add: is_likely_threat_wf wf_exploit_threat exploit_threat_views l
        THREAT_TYPE_EXPLOIT_def)
  note th = likely_exploited_rows [OF h, of ascii_lower]
  have a: "likely_exploited ascii_lower (JArr [wild_second, likely_caps]) = Inr [likely_row_of likely_caps]"
    using th [THEN conjunct1]
    by (simp add: t l exploit_threat_views THREAT_TYPE_EXPLOIT_def sublist_step)
  have k: "likely_caps \<in> set [wild_second, likely_caps]" by simp
  from th [THEN conjunct2, THEN conjunct1, rule_format, OF k m, of "[JNull]" "[]"]
  have b: "likely_threats ascii_lower likely_caps [exploit_threat ''EXPLOITATION MORE LIKELY'', JNull] []
       = Inr [likely_row_of likely_caps]"
    by simp
  have "list_ex (\<lambda>t. has_type THREAT_TYPE_EXPLOIT t
                           \<and> description t = ''EXPLOITATION MORE LIKELY'') (threats likely_caps)"
    by (simp add: t exploit_threat_views THREAT_TYPE_EXPLOIT_def)
  from th [THEN conjunct2, THEN conjunct2, rule_format, OF la k this, of "[]"]
  have c: "likely_vuln ascii_lower likely_caps [] = Inr [likely_row_of likely_caps]"
    by simp
  from h la l(1) a m b c show ?thesis by blast
qed

text \<open>
  Claim C7, as amended. On well-shaped records, the Score field of the row of a reported
  vulnerability is the base score of the first score set of its sequence, 0 when that
  score set carries none, and 0 when the sequence is empty. It is the first base score
  found in the sequence whenever the sequence is empty or its first score set carries one.
\<close>

theorem exploited_in_wild_score:
  assumes "list_all wf_vuln vs"
  shows "(\<forall>v \<in> set vs. \<forall>rows. exploited_yes v \<longrightarrow>
            (\<exists>r. wild_vuln v rows = Inr (rows @ [r])
                 \<and> map_of r ''Score'' = Some (score_of_first_set v)))
       \<and> (\<exists>rows. exploited_in_wild (JArr vs) = Inr rows
            \<and> map (\<lambda>r. map_of r ''Score'') rows =
                map (\<lambda>v. Some (score_of_first_set v)) (filter exploited_yes vs))
       \<and> (\<forall>v \<in> set vs.
            (case score_sets v of [] \<Rightarrow> True | s # _ \<Rightarrow> field s ''BaseScore'' \<noteq> None) \<longrightarrow>
            score_of_first_set v = first_score_found v)"
proof -
  have a: "\<exists>r. wild_vuln v rows = Inr (rows @ [r])
             \<and> map_of r ''Score'' = Some (score_of_first_set v)"
    if "v \<in> set vs" "exploited_yes v" for v rows
  proof -
    from that(1) assms have "wf_vuln v" by (simp add: list_all_iff)
    then have "wild_vuln v rows = Inr (rows @ [wild_row_of v])"
      using that(2) by (simp add: wild_vuln_eq)
    moreover have "map_of (wild_row_of v) ''Score'' = Some (score_of_first_set v)"
      by (simp add: wild_row_of_def)
    ultimately show ?thesis by blast
  qed
  have "map (\<lambda>r. map_of r ''Score'') (map wild_row_of (filter exploited_yes vs)) =
      map (\<lambda>v. Some (score_of_first_set v)) (filter exploited_yes vs)"
    by (simp add: wild_row_of_def comp_def)
  then have b: "\<exists>rows. exploited_in_wild (JArr vs) = Inr rows
            \<and> map (\<lambda>r. map_of r ''Score'') rows =
                map (\<lambda>v. Some (score_of_first_set v)) (filter exploited_yes vs)"
    using exploited_in_wild_eq[OF assms] by simp
  from a b first_found_agrees show ?thesis by (simp add: first_found_agrees)
qed

theorem exploited_in_wild_score_witness:
  "list_all wf_vuln [late_score, wild_scored] \<and> exploited_yes wild_scored
   \<and> (\<exists>r. wild_vuln wild_scored [] = Inr ([] @ [r]) \<and> map_of r ''Score'' = Some (JFloat (15 / 2)))
   \<and> (\<exists>rows. exploited_in_wild (JArr [late_score, wild_scored]) = Inr rows
          \<and> map (\<lambda>r. map_of r ''Score'') rows = [Some (JInt 0), Some (JFloat (15 / 2))])
   \<and> first_score_found wild_scored = JFloat (15 / 2)"
proof -
  have h: "list_all wf_vuln [late_score, wild_scored]"
    by (simp add: wf_late_score wf_wild_scored)
  note th = exploited_in_wild_score [OF h]
  have m: "wild_scored \<in> set [late_score, wild_scored]" by simp
  from th [THEN conjunct1, rule_format, OF m example_wild(2), of "[]"]
  have a: "\<exists>r. wild_vuln wild_scored [] = Inr ([] @ [r]) \<and> map_of r ''Score'' = Some (JFloat (15 / 2))"
    by (simp add: example_wild)
  from th [THEN conjunct2, THEN conjunct1]
  have b: "\<exists>rows. exploited_in_wild (JArr [late_score, wild_scored]) = Inr rows
          \<and> map (\<lambda>r. map_of r ''Score'') rows = [Some (JInt 0), Some (JFloat (15 / 2))]"
    by (simp add: example_wild)
  have "case score_sets wild_scored of [] \<Rightarrow> True | s # _ \<Rightarrow> field s ''BaseScore'' \<noteq> None"
    by (simp add: wild_scored_def score_sets_def field_def)
  from th [THEN conjunct2, THEN conjunct2, rule_format, OF m this]
  have c: "first_score_found wild_scored = JFloat (15 / 2)"
    by (simp add: example_wild)
  from h example_wild(2) a b c show ?thesis by blast
qed

theorem exploited_in_wild_first_found_counterexample:
  "wf_vuln late_score
   \<and> exploited_in_wild (JArr [late_score]) =
       Inr [[(''CVE'', JStr ''CVE-5''), (''Score'', JInt 0), (''Title'', JNull)]]
   \<and> first_score_found late_score = JFloat (91 / 10)"
proof -
  have f: "first_score_found late_score = JFloat (91 / 10)"
    by (simp add: first_score_found_def late_score_def score_sets_def field_def
        List.map_filter_simps)
  have e: "exploited_in_wild (JArr [late_score]) =
       Inr [[(''CVE'', JStr ''CVE-5''), (''Score'', JInt 0), (''Title'', JNull)]]"
    using exploited_in_wild_eq[of "[late_score]"]
    by (simp add: wf_late_score example_wild wild_row_of_def)
  from f e show ?thesis by (simp add: wf_late_score)
qed

section \<open>Properties of the high-severity filter\<close>

text \<open>
  Claim C6, as amended. The score of a vulnerability is the base score of the first score
  set of its sequence, 0.0 when that score set carries none, and 0.0 when the sequence is
  empty. On well-shaped records whose first base score, when an integer, is one that
  \<^verbatim>\<open>float\<close> returns unchanged (magnitude at most 2^53), the filter returns one row for
  each vulnerability whose score is at least the threshold and no row for any other, in
  the order of the input; a call without threshold is the call with 8.0; a vulnerability
  without score sets has score 0.0 and gets no row at 8.0.
\<close>

theorem high_severity_rows:
  assumes "list_all wf_vuln vs" and "exact_to_2_53 fi" and "list_all first_score_exact vs"
  shows "high_severity fi fl (Some th) (JArr vs) =
           Inr (map severity_row_of (filter (\<lambda>v. th \<le> severity_score v) vs))
       \<and> high_severity fi fl None (JArr vs) = high_severity fi fl (Some 8) (JArr vs)
       \<and> (\<forall>v \<in> set vs. \<forall>rows.
             severity_vuln fi fl th v rows =
               Inr (if th \<le> severity_score v then rows @ [severity_row_of v] else rows))
       \<and> (\<forall>v \<in> set vs. \<forall>rows.
             score_sets v = [] \<longrightarrow> severity_score v = 0 \<and> severity_vuln fi fl 8 v rows = Inr rows)"
proof -
  have a: "high_severity fi fl (Some th) (JArr vs) =
           Inr (map severity_row_of (filter (\<lambda>v. th \<le> severity_score v) vs))"
    using high_severity_eq[OF assms, of fl "Some th"] by simp
  have b: "high_severity fi fl None (JArr vs) = high_severity fi fl (Some 8) (JArr vs)"
    by (simp add: high_severity_def)
  have w: "wf_vuln v \<and> first_score_exact v" if "v \<in> set vs" for v
    using that assms(1,3) by (simp add: list_all_iff)
  have c: "severity_vuln fi fl th v rows =
      Inr (if th \<le> severity_score v then rows @ [severity_row_of v] else rows)"
    if "v \<in> set vs" for v rows
    using w[OF that] assms(2) by (simp add: severity_vuln_eq)
  have d: "severity_score v = 0 \<and> severity_vuln fi fl 8 v rows = Inr rows"
    if "v \<in> set vs" "score_sets v = []" for v rows
  proof -
    from that(2) have z: "severity_score v = 0"
      by (simp add: severity_score_def score_of_first_set_def num_value_def)
    with w[OF that(1)] assms(2) show ?thesis by (simp add: severity_vuln_eq)
  qed
  from a b c d show ?thesis by blast
qed

theorem high_severity_rows_witness:
  "list_all wf_vuln [no_scores, score_91, late_score, score_8] \<and> exact_to_2_53 exact_float
   \<and> list_all first_score_exact [no_scores, score_91, late_score, score_8]
   \<and> high_severity exact_float never_float None (JArr [no_scores, score_91, late_score, score_8])
       = Inr [severity_row_of score_91, severity_row_of score_8]
   \<and> score_sets no_scores = [] \<and> severity_score no_scores = 0
   \<and> severity_vuln exact_float never_float 8 no_scores [] = Inr []"
proof -
  have h: "list_all wf_vuln [no_scores, score_91, late_score, score_8]"
    by (simp add: wf_no_scores wf_score_91 wf_late_score wf_score_8)
  have x: "list_all first_score_exact [no_scores, score_91, late_score, score_8]"
    by (simp add: example_exact)
  note th = high_severity_rows [OF h exact_float_exact x, of never_float 8]
  have a: "high_severity exact_float never_float None (JArr [no_scores, score_91, late_score, score_8])
       = Inr [severity_row_of score_91, severity_row_of score_8]"
    using th by (simp add: example_scores)
  have "no_scores \<in> set [no_scores, score_91, late_score, score_8]" by simp
  from th [THEN conjunct2, THEN conjunct2, THEN conjunct2, rule_format, OF this example_scores(5)]
  have b: "severity_score no_scores = 0 \<and> severity_vuln exact_float never_float 8 no_scores [] = Inr []" .
  from h exact_float_exact x a b example_scores(5) show ?thesis by blast
qed

theorem high_severity_first_found_counterexample:
  "wf_vuln late_score
   \<and> first_score_found late_score = JFloat (91 / 10)
   \<and> (8::real) \<le> num_value (first_score_found late_score)
   \<and> high_severity exact_float never_float None (JArr [late_score]) = Inr []"
proof -
  have f: "first_score_found late_score = JFloat (91 / 10)"
    by (simp add: first_score_found_def late_score_def score_sets_def field_def
        List.map_filter_simps)
  have h: "high_severity exact_float never_float None (JArr [late_score]) = Inr []"
    using high_severity_eq[of "[late_score]" exact_float never_float None]
    by (simp add: wf_late_score example_scores example_exact exact_float_exact)
  from f h show ?thesis by (simp add: wf_late_score num_value_def)
qed

section \<open>The report\<close>

text \<open>
  Claim C8, as amended. When the run reaches the writer, the workbook has exactly five
  sheets, named Summary, By Classification, Exploited in Wild, High Severity
  (\<ge>8.0) with the sign U+2265, and Likely Exploited, in this order.
\<close>

theorem report_sheet_names:
  assumes "main fi fl lower ym resp = Inr wb"
  shows "map fst wb =
           [''Summary'', ''By Classification'', ''Exploited in Wild'',
            ''High Severity ('' @ [CHR 0xE2, CHR 0x89, CHR 0xA5] @ ''8.0)'',
            ''Likely Exploited'']
       \<and> length wb = 5"
  using assms unfolding main_def and_then_Inr by (auto simp: to_excel_def Let_def)

theorem report_sheet_names_witness:
  "main exact_float never_float ascii_lower ''2024-Jan'' empty_bulletin = Inr empty_report
   \<and> map fst empty_report =
           [''Summary'', ''By Classification'', ''Exploited in Wild'',
            ''High Severity ('' @ [CHR 0xE2, CHR 0x89, CHR 0xA5] @ ''8.0)'',
            ''Likely Exploited'']
   \<and> length empty_report = 5"
  using report_sheet_names [OF main_empty_bulletin] main_empty_bulletin by simp

theorem report_sheet_names_counterexample:
  "main exact_float never_float ascii_lower ''2024-Jan'' empty_bulletin = Inr empty_report
   \<and> map fst empty_report \<noteq>
        [''Summary'', ''By Classification'', ''Exploited in Wild'', ''High Severity'',
         ''Likely Exploited'']"
  using main_empty_bulletin by (simp add: empty_report_def)

section \<open>Missing fields\<close>



end
